theory Spec2Isabelle
  imports Complex_Main "HOL-Library.Char_ord" "HOL-Library.List_Lexorder" "HOL-Library.Multiset"
begin

section \<open>Host values\<close>

text \<open>
  The module \<^verbatim>\<open>Lib/sandbox/numexpr/expressions.py\<close> is Python 2 code. A number of the host
  is an \<^verbatim>\<open>int\<close>, a \<^verbatim>\<open>long\<close> or a \<^verbatim>\<open>float\<close>. An \<^verbatim>\<open>int\<close> lies between \<^verbatim>\<open>-sys.maxint - 1\<close> and
  \<^verbatim>\<open>sys.maxint\<close>, a bound of the platform that the functions below take as \<open>maxint\<close>; an
  integer literal or result beyond it is a \<^verbatim>\<open>long\<close>, and the result of an operation on a
  \<^verbatim>\<open>long\<close> stays a \<^verbatim>\<open>long\<close>. Floats are idealised as reals: rounding, infinities and NaN are
  not modelled.
\<close>

datatype pynum = PyInt int | PyLong int | PyFloat real

datatype error =
    ZeroDivisionError
  | AttributeError
  | KeyError
  | IndexError
  | TypeError
  | SyntaxError
  | InputNotFound string        \<comment> \<open>\<^verbatim>\<open>ValueError("input name %r not found in expression")\<close>\<close>
  | InputNotSpecified string    \<comment> \<open>\<^verbatim>\<open>ValueError("input name %r not specified in order")\<close>\<close>
  | ChrNotInRange               \<comment> \<open>\<^verbatim>\<open>ValueError("chr() arg not in range(256)")\<close>\<close>
  | NotAString                  \<comment> \<open>\<^verbatim>\<open>ValueError("must specify expression as a string")\<close>\<close>

fun to_float :: "pynum \<Rightarrow> real" where
  "to_float (PyInt i) = real_of_int i"
| "to_float (PyLong i) = real_of_int i"
| "to_float (PyFloat r) = r"

text \<open>An \<^verbatim>\<open>int\<close> of the host is within the range of the platform.\<close>

fun python_number :: "int \<Rightarrow> pynum \<Rightarrow> bool" where
  "python_number maxint (PyInt i) = (- maxint - 1 \<le> i \<and> i \<le> maxint)"
| "python_number maxint c = True"

fun is_long :: "pynum \<Rightarrow> bool" where
  "is_long (PyLong i) = True"
| "is_long c = False"

text \<open>The result of an operation on two \<^verbatim>\<open>int\<close>s: an \<^verbatim>\<open>int\<close>, or a \<^verbatim>\<open>long\<close> on overflow.\<close>

definition int_result :: "int \<Rightarrow> int \<Rightarrow> pynum" where
  "int_result maxint i = (if - maxint - 1 \<le> i \<and> i \<le> maxint then PyInt i else PyLong i)"

text \<open>Equality of dictionary keys: \<^verbatim>\<open>1 == 1.0\<close>, and both hash alike.\<close>

definition py_eq :: "pynum \<Rightarrow> pynum \<Rightarrow> bool" where
  "py_eq a b = (to_float a = to_float b)"

fun py_neg :: "int \<Rightarrow> pynum \<Rightarrow> pynum" where
  "py_neg maxint (PyInt i) = int_result maxint (- i)"
| "py_neg maxint (PyLong i) = PyLong (- i)"
| "py_neg maxint (PyFloat r) = PyFloat (- r)"

fun py_add :: "int \<Rightarrow> pynum \<Rightarrow> pynum \<Rightarrow> pynum" where
  "py_add maxint (PyInt i) (PyInt j) = int_result maxint (i + j)"
| "py_add maxint (PyInt i) (PyLong j) = PyLong (i + j)"
| "py_add maxint (PyLong i) (PyInt j) = PyLong (i + j)"
| "py_add maxint (PyLong i) (PyLong j) = PyLong (i + j)"
| "py_add maxint a b = PyFloat (to_float a + to_float b)"

fun py_sub :: "int \<Rightarrow> pynum \<Rightarrow> pynum \<Rightarrow> pynum" where
  "py_sub maxint (PyInt i) (PyInt j) = int_result maxint (i - j)"
| "py_sub maxint (PyInt i) (PyLong j) = PyLong (i - j)"
| "py_sub maxint (PyLong i) (PyInt j) = PyLong (i - j)"
| "py_sub maxint (PyLong i) (PyLong j) = PyLong (i - j)"
| "py_sub maxint a b = PyFloat (to_float a - to_float b)"

fun py_mul :: "int \<Rightarrow> pynum \<Rightarrow> pynum \<Rightarrow> pynum" where
  "py_mul maxint (PyInt i) (PyInt j) = int_result maxint (i * j)"
| "py_mul maxint (PyInt i) (PyLong j) = PyLong (i * j)"
| "py_mul maxint (PyLong i) (PyInt j) = PyLong (i * j)"
| "py_mul maxint (PyLong i) (PyLong j) = PyLong (i * j)"
| "py_mul maxint a b = PyFloat (to_float a * to_float b)"

text \<open>
  \<^verbatim>\<open>operator.div\<close> and \<^verbatim>\<open>/\<close> of Python 2: floor division on two integers, true division
  when a float takes part, and \<^verbatim>\<open>ZeroDivisionError\<close> on a zero divisor of any type.
\<close>

fun py_div :: "int \<Rightarrow> pynum \<Rightarrow> pynum \<Rightarrow> error + pynum" where
  "py_div maxint (PyInt i) (PyInt j) =
     (if j = 0 then Inl ZeroDivisionError else Inr (int_result maxint (i div j)))"
| "py_div maxint (PyInt i) (PyLong j) =
     (if j = 0 then Inl ZeroDivisionError else Inr (PyLong (i div j)))"
| "py_div maxint (PyLong i) (PyInt j) =
     (if j = 0 then Inl ZeroDivisionError else Inr (PyLong (i div j)))"
| "py_div maxint (PyLong i) (PyLong j) =
     (if j = 0 then Inl ZeroDivisionError else Inr (PyLong (i div j)))"
| "py_div maxint a b =
     (if to_float b = 0 then Inl ZeroDivisionError else Inr (PyFloat (to_float a / to_float b)))"

section \<open>Expression nodes\<close>

text \<open>
  Nodes are Python objects, and the compiler keys its dictionaries by object identity (the
  classes define neither \<^verbatim>\<open>__eq__\<close> nor \<^verbatim>\<open>__hash__\<close>). Every node therefore carries its
  identity as first component; an object that occurs at several places of an expression
  occurs there with the same identity. New objects take their identity from a counter, the
  heap, that every allocating function takes and returns.
\<close>

datatype node =
    VariableNode nat string
  | ConstantNode nat pynum
  | OpNode nat string "node list"

type_synonym heap = nat

text \<open>What an operator can be applied to: a number, a node, or any other host object.\<close>

datatype pyval = PyNum pynum | PyNode node | NotImplemented | PyOther

fun node_id :: "node \<Rightarrow> nat" where
  "node_id (VariableNode i s) = i"
| "node_id (ConstantNode i v) = i"
| "node_id (OpNode i opc args) = i"

fun is_VariableNode :: "node \<Rightarrow> bool" where
  "is_VariableNode (VariableNode i s) = True"
| "is_VariableNode _ = False"

fun is_ConstantNode :: "node \<Rightarrow> bool" where
  "is_ConstantNode (ConstantNode i v) = True"
| "is_ConstantNode _ = False"

fun is_OpNode :: "node \<Rightarrow> bool" where
  "is_OpNode (OpNode i opc args) = True"
| "is_OpNode _ = False"

text \<open>\<^verbatim>\<open>ConstantNode(value)\<close>: a new object.\<close>

definition ConstantNode_new :: "pynum \<Rightarrow> heap \<Rightarrow> node \<times> heap" where
  "ConstantNode_new v h = (ConstantNode h v, Suc h)"

text \<open>\<^verbatim>\<open>OpNode.__init__\<close>, run on the new object \<^verbatim>\<open>self\<close>.\<close>

fun OpNode_init ::
  "int \<Rightarrow> nat \<Rightarrow> string \<Rightarrow> node list \<Rightarrow> heap \<Rightarrow> error + node \<times> heap" where
  "OpNode_init maxint self opcode [a0, a1] h =
     (if is_ConstantNode a0 then Inr (OpNode self (opcode @ ''_c'') [a0, a1], h)
      else (case a1 of
          ConstantNode i v \<Rightarrow>
            \<comment> \<open>constant goes last, although the op is constant - value\<close>
            if opcode = ''sub'' then
              (let (c, h') = ConstantNode_new (py_neg maxint v) h
               in Inr (OpNode self ''add_c'' [a0, c], h'))
            else if opcode = ''div'' then
              (case py_div maxint (PyFloat 1) v of
                 Inl e \<Rightarrow> Inl e
               | Inr r \<Rightarrow>
                   (let (c, h') = ConstantNode_new r h
                    in Inr (OpNode self ''mul_c'' [a0, c], h')))
            else Inr (OpNode self (opcode @ ''_c'') [a0, a1], h)
        | _ \<Rightarrow> Inr (OpNode self opcode [a0, a1], h)))"
| "OpNode_init maxint self opcode args h = Inr (OpNode self opcode args, h)"

text \<open>\<^verbatim>\<open>OpNode(opcode, args)\<close>: allocate the object, then initialise it.\<close>

definition OpNode_new :: "int \<Rightarrow> string \<Rightarrow> node list \<Rightarrow> heap \<Rightarrow> error + node \<times> heap" where
  "OpNode_new maxint opcode args h = OpNode_init maxint h opcode args (Suc h)"

text \<open>
  The closure \<^verbatim>\<open>operation\<close> that \<^verbatim>\<open>binop(opname)\<close> returns. A \<^verbatim>\<open>long\<close> is no instance of
  \<^verbatim>\<open>(int, float)\<close> and no \<^verbatim>\<open>ExpressionNode\<close>: the result is \<^verbatim>\<open>NotImplemented\<close>.
\<close>

fun binop :: "int \<Rightarrow> string \<Rightarrow> node \<Rightarrow> pyval \<Rightarrow> heap \<Rightarrow> error + pyval \<times> heap" where
  "binop maxint opname self (PyNum (PyLong i)) h = Inr (NotImplemented, h)"
| "binop maxint opname self (PyNum c) h =
     (let (other, h') = ConstantNode_new c h
      in case OpNode_new maxint opname [self, other] h' of
           Inl e \<Rightarrow> Inl e
         | Inr (r, h'') \<Rightarrow> Inr (PyNode r, h''))"
| "binop maxint opname self (PyNode other) h =
     (case OpNode_new maxint opname [self, other] h of
        Inl e \<Rightarrow> Inl e
      | Inr (r, h') \<Rightarrow> Inr (PyNode r, h'))"
| "binop maxint opname self other h = Inr (NotImplemented, h)"

text \<open>
  The methods of \<^verbatim>\<open>ExpressionNode\<close>: \<^verbatim>\<open>__add__ = __radd__ = binop('add')\<close> and so on.
\<close>

definition ExpressionNode_add ::
  "int \<Rightarrow> node \<Rightarrow> pyval \<Rightarrow> heap \<Rightarrow> error + pyval \<times> heap" where
  "ExpressionNode_add maxint = binop maxint ''add''"

definition ExpressionNode_radd ::
  "int \<Rightarrow> node \<Rightarrow> pyval \<Rightarrow> heap \<Rightarrow> error + pyval \<times> heap" where
  "ExpressionNode_radd maxint = binop maxint ''add''"

definition ExpressionNode_sub ::
  "int \<Rightarrow> node \<Rightarrow> pyval \<Rightarrow> heap \<Rightarrow> error + pyval \<times> heap" where
  "ExpressionNode_sub maxint = binop maxint ''sub''"

definition ExpressionNode_rsub ::
  "int \<Rightarrow> node \<Rightarrow> pyval \<Rightarrow> heap \<Rightarrow> error + pyval \<times> heap" where
  "ExpressionNode_rsub maxint = binop maxint ''sub''"

definition ExpressionNode_mul ::
  "int \<Rightarrow> node \<Rightarrow> pyval \<Rightarrow> heap \<Rightarrow> error + pyval \<times> heap" where
  "ExpressionNode_mul maxint = binop maxint ''mul''"

definition ExpressionNode_rmul ::
  "int \<Rightarrow> node \<Rightarrow> pyval \<Rightarrow> heap \<Rightarrow> error + pyval \<times> heap" where
  "ExpressionNode_rmul maxint = binop maxint ''mul''"

definition ExpressionNode_div ::
  "int \<Rightarrow> node \<Rightarrow> pyval \<Rightarrow> heap \<Rightarrow> error + pyval \<times> heap" where
  "ExpressionNode_div maxint = binop maxint ''div''"

definition ExpressionNode_rdiv ::
  "int \<Rightarrow> node \<Rightarrow> pyval \<Rightarrow> heap \<Rightarrow> error + pyval \<times> heap" where
  "ExpressionNode_rdiv maxint = binop maxint ''div''"

text \<open>\<^verbatim>\<open>ExpressionNode.__neg__\<close> and \<^verbatim>\<open>ExpressionNode.__pos__\<close>.\<close>

definition ExpressionNode_neg :: "int \<Rightarrow> node \<Rightarrow> heap \<Rightarrow> error + node \<times> heap" where
  "ExpressionNode_neg maxint self h = OpNode_new maxint ''neg'' [self] h"

definition ExpressionNode_pos :: "node \<Rightarrow> node" where
  "ExpressionNode_pos self = self"

text \<open>
  The closure that \<^verbatim>\<open>optimize_constants(name, op)\<close> returns, a method of \<^verbatim>\<open>ConstantNode\<close>:
  \<open>inherited\<close> is \<^verbatim>\<open>getattr(ExpressionNode, name)\<close>, and \<open>v\<close> is \<^verbatim>\<open>self._value\<close>.
\<close>

fun optimize_constants ::
  "(node \<Rightarrow> pyval \<Rightarrow> heap \<Rightarrow> error + pyval \<times> heap) \<Rightarrow> (pynum \<Rightarrow> pynum \<Rightarrow> error + pynum) \<Rightarrow>
   nat \<Rightarrow> pynum \<Rightarrow> pyval \<Rightarrow> heap \<Rightarrow> error + pyval \<times> heap" where
  "optimize_constants inherited op i v (PyNode (ConstantNode j w)) h =
     (case op v w of
        Inl e \<Rightarrow> Inl e
      | Inr r \<Rightarrow> (let (c, h') = ConstantNode_new r h in Inr (PyNode c, h')))"
| "optimize_constants inherited op i v other h = inherited (ConstantNode i v) other h"

text \<open>
  Method lookup on a node: \<^verbatim>\<open>ConstantNode\<close> overrides \<^verbatim>\<open>__add__\<close>, \<^verbatim>\<open>__sub__\<close>, \<^verbatim>\<open>__mul__\<close>,
  \<^verbatim>\<open>__div__\<close> and \<^verbatim>\<open>__neg__\<close>, and inherits the reflected methods.
\<close>

datatype operator = Add | Sub | Mult | Div

fun opname :: "operator \<Rightarrow> string" where
  "opname Add = ''add''"
| "opname Sub = ''sub''"
| "opname Mult = ''mul''"
| "opname Div = ''div''"

fun host_op :: "int \<Rightarrow> operator \<Rightarrow> pynum \<Rightarrow> pynum \<Rightarrow> error + pynum" where
  "host_op maxint Add a b = Inr (py_add maxint a b)"
| "host_op maxint Sub a b = Inr (py_sub maxint a b)"
| "host_op maxint Mult a b = Inr (py_mul maxint a b)"
| "host_op maxint Div a b = py_div maxint a b"

fun forward :: "int \<Rightarrow> operator \<Rightarrow> node \<Rightarrow> pyval \<Rightarrow> heap \<Rightarrow> error + pyval \<times> heap" where
  "forward maxint Add = ExpressionNode_add maxint"
| "forward maxint Sub = ExpressionNode_sub maxint"
| "forward maxint Mult = ExpressionNode_mul maxint"
| "forward maxint Div = ExpressionNode_div maxint"

fun reflected :: "int \<Rightarrow> operator \<Rightarrow> node \<Rightarrow> pyval \<Rightarrow> heap \<Rightarrow> error + pyval \<times> heap" where
  "reflected maxint Add = ExpressionNode_radd maxint"
| "reflected maxint Sub = ExpressionNode_rsub maxint"
| "reflected maxint Mult = ExpressionNode_rmul maxint"
| "reflected maxint Div = ExpressionNode_rdiv maxint"

text \<open>\<^verbatim>\<open>x.__op__(other)\<close> and \<^verbatim>\<open>x.__rop__(other)\<close> for a node \<open>x\<close>.\<close>

fun method_op ::
  "int \<Rightarrow> operator \<Rightarrow> node \<Rightarrow> pyval \<Rightarrow> heap \<Rightarrow> error + pyval \<times> heap" where
  "method_op maxint f (ConstantNode i v) other h =
     optimize_constants (forward maxint f) (host_op maxint f) i v other h"
| "method_op maxint f x other h = forward maxint f x other h"

definition method_rop ::
  "int \<Rightarrow> operator \<Rightarrow> node \<Rightarrow> pyval \<Rightarrow> heap \<Rightarrow> error + pyval \<times> heap" where
  "method_rop maxint f x other h = reflected maxint f x other h"

text \<open>\<^verbatim>\<open>-x\<close> for a node \<open>x\<close>: \<^verbatim>\<open>ConstantNode.__neg__\<close> returns \<^verbatim>\<open>ConstantNode(-self._value)\<close>.\<close>

fun method_neg :: "int \<Rightarrow> node \<Rightarrow> heap \<Rightarrow> error + node \<times> heap" where
  "method_neg maxint (ConstantNode i v) h = Inr (ConstantNode_new (py_neg maxint v) h)"
| "method_neg maxint x h = ExpressionNode_neg maxint x h"

section \<open>Expression text\<close>

text \<open>
  \<^verbatim>\<open>string2expression\<close> hands the text to the host: \<^verbatim>\<open>compile(s, '<expr>', 'eval')\<close> parses
  it, \<^verbatim>\<open>c.co_names\<close> lists the names it uses, and \<^verbatim>\<open>eval(c, names)\<close> evaluates it with the
  operators of the node classes. The parser is the host's; its result is a syntax tree of
  the arithmetic fragment. What the host supplies is collected in a record:
  \<^item> \<open>parse\<close>: the parser, \<open>None\<close> for a \<^verbatim>\<open>SyntaxError\<close>;
  \<^item> \<open>name_keys\<close>, \<open>value_keys\<close>: the order in which a Python 2 dictionary iterates its
    keys, as a function of the keys in insertion order (the order depends on the hashes and
    is not insertion order in general);
  \<^item> \<open>opcodes\<close>: the table \<^verbatim>\<open>interpreter.opcodes\<close> of the extension module;
  \<^item> \<open>maxint\<close>: \<^verbatim>\<open>sys.maxint\<close>, the largest \<^verbatim>\<open>int\<close> of the platform.
\<close>

datatype unaryop = USub | UAdd

datatype pyexpr =
    Num pynum
  | Name string
  | BinOp pyexpr operator pyexpr
  | UnaryOp unaryop pyexpr

record host =
  parse :: "string \<Rightarrow> pyexpr option"
  name_keys :: "string list \<Rightarrow> string list"
  value_keys :: "pynum list \<Rightarrow> pynum list"
  opcodes :: "string \<Rightarrow> nat option"
  maxint :: int

text \<open>A \<^verbatim>\<open>for\<close> loop whose body may raise: the first error ends it.\<close>

fun foldE :: "('a \<Rightarrow> 's \<Rightarrow> error + 's) \<Rightarrow> 'a list \<Rightarrow> 's \<Rightarrow> error + 's" where
  "foldE f [] s = Inr s"
| "foldE f (x # xs) s = (case f x s of Inl e \<Rightarrow> Inl e | Inr s' \<Rightarrow> foldE f xs s')"

fun names_of :: "pyexpr \<Rightarrow> string list" where
  "names_of (Num v) = []"
| "names_of (Name s) = [s]"
| "names_of (BinOp l f r) = names_of l @ names_of r"
| "names_of (UnaryOp u e) = names_of e"

text \<open>\<^verbatim>\<open>c.co_names\<close>: every name once, in the order of first use.\<close>

definition co_names :: "pyexpr \<Rightarrow> string list" where
  "co_names c = rev (remdups (rev (names_of c)))"

text \<open>\<^verbatim>\<open>Expression.__getattr__\<close> on the instance \<^verbatim>\<open>E\<close>, whose \<^verbatim>\<open>__dict__\<close> is empty.\<close>

definition Expression_getattr :: "string \<Rightarrow> heap \<Rightarrow> error + node \<times> heap" where
  "Expression_getattr name h =
     (if (case name of [] \<Rightarrow> False | c # cs \<Rightarrow> c = CHR ''_'') then Inl KeyError
      else Inr (VariableNode h name, Suc h))"

text \<open>The body of \<^verbatim>\<open>for name in c.co_names: names[name] = getattr(E, name)\<close>.\<close>

definition bind_name ::
  "string \<Rightarrow> (string \<Rightarrow> node option) \<times> heap \<Rightarrow> error + (string \<Rightarrow> node option) \<times> heap" where
  "bind_name name st =
     (case st of (names, h) \<Rightarrow>
        (case Expression_getattr name h of
           Inl e \<Rightarrow> Inl e
         | Inr (v, h') \<Rightarrow> Inr (names(name \<mapsto> v), h')))"

text \<open>
  A binary operator of the host on two values: host arithmetic on two numbers, the
  method of the left operand when it is a node, the reflected method of the right operand
  when only that one is a node.
\<close>

fun binary :: "int \<Rightarrow> operator \<Rightarrow> pyval \<Rightarrow> pyval \<Rightarrow> heap \<Rightarrow> error + pyval \<times> heap" where
  "binary mx f (PyNum a) (PyNum b) h =
     (case host_op mx f a b of Inl e \<Rightarrow> Inl e | Inr r \<Rightarrow> Inr (PyNum r, h))"
| "binary mx f (PyNode x) b h =
     (case method_op mx f x b h of
        Inl e \<Rightarrow> Inl e
      | Inr (NotImplemented, h') \<Rightarrow> Inl TypeError
      | Inr (r, h') \<Rightarrow> Inr (r, h'))"
| "binary mx f (PyNum a) (PyNode y) h =
     (case method_rop mx f y (PyNum a) h of
        Inl e \<Rightarrow> Inl e
      | Inr (NotImplemented, h') \<Rightarrow> Inl TypeError
      | Inr (r, h') \<Rightarrow> Inr (r, h'))"
| "binary mx f a b h = Inl TypeError"

fun unary :: "int \<Rightarrow> unaryop \<Rightarrow> pyval \<Rightarrow> heap \<Rightarrow> error + pyval \<times> heap" where
  "unary mx USub (PyNum a) h = Inr (PyNum (py_neg mx a), h)"
| "unary mx USub (PyNode x) h =
     (case method_neg mx x h of Inl e \<Rightarrow> Inl e | Inr (r, h') \<Rightarrow> Inr (PyNode r, h'))"
| "unary mx UAdd (PyNum a) h = Inr (PyNum a, h)"
| "unary mx UAdd (PyNode x) h = Inr (PyNode (ExpressionNode_pos x), h)"
| "unary mx u a h = Inl TypeError"

text \<open>\<^verbatim>\<open>eval(c, names)\<close>: operands left to right, then the operator.\<close>

fun eval :: "int \<Rightarrow> (string \<Rightarrow> node option) \<Rightarrow> pyexpr \<Rightarrow> heap \<Rightarrow> error + pyval \<times> heap" where
  "eval mx names (Num v) h = Inr (PyNum v, h)"
| "eval mx names (Name s) h =
     (case names s of None \<Rightarrow> Inl KeyError | Some x \<Rightarrow> Inr (PyNode x, h))"
| "eval mx names (BinOp l f r) h =
     (case eval mx names l h of
        Inl e \<Rightarrow> Inl e
      | Inr (a, h1) \<Rightarrow>
          (case eval mx names r h1 of
             Inl e \<Rightarrow> Inl e
           | Inr (b, h2) \<Rightarrow> binary mx f a b h2))"
| "eval mx names (UnaryOp u e) h =
     (case eval mx names e h of Inl err \<Rightarrow> Inl err | Inr (a, h1) \<Rightarrow> unary mx u a h1)"

definition string2expression :: "host \<Rightarrow> string \<Rightarrow> heap \<Rightarrow> error + pyval \<times> heap" where
  "string2expression H s h =
     (case parse H s of
        None \<Rightarrow> Inl SyntaxError
      | Some c \<Rightarrow>
          (case foldE bind_name (co_names c) (Map.empty, h) of
             Inl e \<Rightarrow> Inl e
           | Inr (names, h') \<Rightarrow> eval (maxint H) names c h'))"

section \<open>The compiler\<close>

text \<open>
  \<^verbatim>\<open>ExpressionNode._walk\<close> and \<^verbatim>\<open>OpNode._walk\<close>: the operands left to right, then the node.
  \<^verbatim>\<open>walk(instances_of=C)\<close> skips the nodes that are no instance of \<^verbatim>\<open>C\<close>; a loop over it is
  a loop over \<open>walk\<close> whose body does nothing on the other classes.
\<close>

fun walk :: "node \<Rightarrow> node list" where
  "walk (OpNode i opc args) = concat (map walk args) @ [OpNode i opc args]"
| "walk a = [a]"

text \<open>
  A register is a mutable object that several nodes may share. The register objects live
  in a store, a list, and are referred to by their position in it; a new object is appended.
\<close>

record Register =
  reg_n :: "nat option"
  reg_name :: "string option"
  reg_temporary :: bool
  reg_constant :: bool
  reg_value :: "pynum option"

definition Register_new ::
  "nat option \<Rightarrow> string option \<Rightarrow> bool \<Rightarrow> bool \<Rightarrow> pynum option \<Rightarrow> Register" where
  "Register_new n name temporary constant v =
     \<lparr>reg_n = n, reg_name = name, reg_temporary = temporary, reg_constant = constant,
      reg_value = v\<rparr>"

text \<open>
  The dictionaries. \<open>name_map\<close> and \<open>const_map\<close> are iterated, so they keep their keys in
  insertion order; \<open>node_map\<close> and \<open>registers\<close> are keyed by node identity and only looked
  up. A node is stored as its identity, a register as its position in the store.
\<close>

type_synonym name_map = "(string \<times> nat) list"
type_synonym const_map = "(pynum \<times> nat) list"
type_synonym node_map = "nat \<Rightarrow> nat option"
type_synonym registers = "nat \<Rightarrow> nat option"

fun lookup_value :: "const_map \<Rightarrow> pynum \<Rightarrow> nat option" where
  "lookup_value [] v = None"
| "lookup_value ((k, c) # kvs) v = (if py_eq k v then Some c else lookup_value kvs v)"

text \<open>\<^verbatim>\<open>node_map.get(a, a)\<close>.\<close>

definition node_map_get :: "node_map \<Rightarrow> nat \<Rightarrow> nat" where
  "node_map_get node_map a = (case node_map a of None \<Rightarrow> a | Some c \<Rightarrow> c)"

text \<open>The body of the loop that canonicalizes the variables.\<close>

fun canonicalize_variable :: "node \<Rightarrow> name_map \<times> node_map \<Rightarrow> name_map \<times> node_map" where
  "canonicalize_variable (VariableNode a name) (name_map, node_map) =
     (case map_of name_map name of
        Some c \<Rightarrow> (name_map, node_map(a \<mapsto> c))
      | None \<Rightarrow> (name_map @ [(name, a)], node_map(a \<mapsto> a)))"
| "canonicalize_variable a st = st"

text \<open>The body of the loop that canonicalizes the constants.\<close>

fun canonicalize_constant :: "node \<Rightarrow> const_map \<times> node_map \<Rightarrow> const_map \<times> node_map" where
  "canonicalize_constant (ConstantNode a v) (const_map, node_map) =
     (case lookup_value const_map v of
        Some c \<Rightarrow> (const_map, node_map(a \<mapsto> c))
      | None \<Rightarrow> (const_map @ [(v, a)], node_map(a \<mapsto> a)))"
| "canonicalize_constant a st = st"

text \<open>
  The check of \<open>input_order\<close>. An empty or absent order is false in \<^verbatim>\<open>if input_order:\<close> and
  gives the sorted names.
\<close>

definition check_input_order :: "host \<Rightarrow> name_map \<Rightarrow> string list option \<Rightarrow> error + string list" where
  "check_input_order H name_map input_order =
     (case input_order of
        None \<Rightarrow> Inr (sort (map fst name_map))
      | Some order \<Rightarrow>
          if order = [] then Inr (sort (map fst name_map))
          else
            (case find (\<lambda>name. map_of name_map name = None) order of
               Some name \<Rightarrow> Inl (InputNotFound name)
             | None \<Rightarrow>
                 (case find (\<lambda>name. name \<notin> set order) (name_keys H (map fst name_map)) of
                    Some name \<Rightarrow> Inl (InputNotSpecified name)
                  | None \<Rightarrow> Inr order)))"

text \<open>
  The three loops that assign registers; each body gets the loop index from
  \<^verbatim>\<open>enumerate\<close>.
\<close>

definition assign_input ::
  "name_map \<Rightarrow> nat \<times> string \<Rightarrow> registers \<times> Register list \<Rightarrow> error + registers \<times> Register list" where
  "assign_input name_map ix st =
     (case (ix, st) of ((i, name), (registers, store)) \<Rightarrow>
        (case map_of name_map name of
           None \<Rightarrow> Inl KeyError
         | Some v \<Rightarrow>
             Inr (registers(v \<mapsto> length store),
                  store @ [Register_new (Some (i + 1)) (Some name) False False None])))"

fun assign_temporary ::
  "node_map \<Rightarrow> node \<Rightarrow> registers \<times> Register list \<Rightarrow> registers \<times> Register list" where
  "assign_temporary node_map (OpNode a opc args) (registers, store) =
     (registers(node_map_get node_map a \<mapsto> length store),
      store @ [Register_new None None True False None])"
| "assign_temporary node_map a st = st"

definition assign_constant ::
  "const_map \<Rightarrow> nat \<times> pynum \<Rightarrow> registers \<times> Register list \<Rightarrow> error + registers \<times> Register list" where
  "assign_constant const_map iv st =
     (case (iv, st) of ((i, v), (registers, store)) \<Rightarrow>
        (case lookup_value const_map v of
           None \<Rightarrow> Inl KeyError
         | Some c \<Rightarrow>
             Inr (registers(c \<mapsto> length store),
                  store @ [Register_new (Some i) None False True (Some v)])))"

text \<open>
  The reuse pass. The inner loop looks for the first operand whose register is a
  temporary; the outer body gives the node that register.
\<close>

fun first_temporary ::
  "node_map \<Rightarrow> registers \<Rightarrow> Register list \<Rightarrow> node list \<Rightarrow> error + nat option" where
  "first_temporary node_map registers store [] = Inr None"
| "first_temporary node_map registers store (arg # args) =
     (case registers (node_map_get node_map (node_id arg)) of
        None \<Rightarrow> Inl KeyError
      | Some r \<Rightarrow>
          if reg_temporary (store ! r) then Inr (Some r)
          else first_temporary node_map registers store args)"

fun reuse_temporary ::
  "node_map \<Rightarrow> Register list \<Rightarrow> node \<Rightarrow> registers \<Rightarrow> error + registers" where
  "reuse_temporary node_map store (OpNode a opc args) registers =
     (case first_temporary node_map registers store args of
        Inl e \<Rightarrow> Inl e
      | Inr None \<Rightarrow> Inr registers
      | Inr (Some r) \<Rightarrow> Inr (registers(node_map_get node_map a \<mapsto> r)))"
| "reuse_temporary node_map store a registers = Inr registers"

text \<open>\<^verbatim>\<open>registers[ex].n = 0\<close> and \<^verbatim>\<open>registers[ex].temporary = False\<close>.\<close>

definition output_register :: "registers \<Rightarrow> nat \<Rightarrow> Register list \<Rightarrow> error + Register list" where
  "output_register registers ex store =
     (case registers ex of
        None \<Rightarrow> Inl KeyError
      | Some r \<Rightarrow> Inr (store[r := (store ! r)\<lparr>reg_n := Some 0, reg_temporary := False\<rparr>]))"

text \<open>
  The closure \<^verbatim>\<open>reg\<close>. The set \<open>seen_temps\<close> is kept as the list of its elements in the
  order they were added, so its length is the size of the set.
\<close>

definition reg ::
  "nat \<Rightarrow> node_map \<Rightarrow> registers \<Rightarrow> node \<Rightarrow> Register list \<times> nat list \<Rightarrow>
   error + nat \<times> Register list \<times> nat list" where
  "reg n_inputs node_map registers a st =
     (case st of (store, seen_temps) \<Rightarrow>
        (case registers (node_map_get node_map (node_id a)) of
           None \<Rightarrow> Inl KeyError
         | Some m \<Rightarrow>
             if m \<notin> set seen_temps \<and> reg_temporary (store ! m) then
               Inr (m, store[m := (store ! m)\<lparr>reg_n := Some (1 + n_inputs + length seen_temps)\<rparr>],
                    seen_temps @ [m])
             else Inr (m, store, seen_temps)))"

text \<open>
  The body of the loop that emits the program. An entry holds the opcode and the register
  objects of the result and of the operands.
\<close>

type_synonym entry = "string \<times> nat \<times> nat \<times> nat option"

fun emit ::
  "nat \<Rightarrow> node_map \<Rightarrow> registers \<Rightarrow> node \<Rightarrow> entry list \<times> Register list \<times> nat list \<Rightarrow>
   error + entry list \<times> Register list \<times> nat list" where
  "emit n_inputs node_map registers (OpNode a opc args) (program, st) =
     (case reg n_inputs node_map registers (OpNode a opc args) st of
        Inl e \<Rightarrow> Inl e
      | Inr (r, st1) \<Rightarrow>
          (case args of
             [] \<Rightarrow> Inl IndexError
           | a1 # rest \<Rightarrow>
               (case reg n_inputs node_map registers a1 st1 of
                  Inl e \<Rightarrow> Inl e
                | Inr (r1, st2) \<Rightarrow>
                    (case rest of
                       [] \<Rightarrow> Inr (program @ [(opc, r, r1, None)], st2)
                     | a2 # others \<Rightarrow>
                         (case reg n_inputs node_map registers a2 st2 of
                            Inl e \<Rightarrow> Inl e
                          | Inr (r2, st3) \<Rightarrow> Inr (program @ [(opc, r, r1, Some r2)], st3))))))"
| "emit n_inputs node_map registers a st = Inr st"

text \<open>
  What \<^verbatim>\<open>numexpr\<close> returns: with \<^verbatim>\<open>precompiled\<close> the list \<open>program\<close>, whose entries hold
  the register objects themselves (read here with the fields they have in the end),
  otherwise the object that \<^verbatim>\<open>interpreter.NumExpr\<close> builds from its keyword arguments.
\<close>

type_synonym instruction = "string \<times> Register \<times> Register \<times> Register option"

record NumExpr =
  nex_n_inputs :: nat
  nex_n_temps :: nat
  nex_program :: string
  nex_constants :: "real list"
  nex_input_names :: "string list"

datatype compiled = Precompiled "instruction list" | Compiled NumExpr

definition resolve :: "Register list \<Rightarrow> entry \<Rightarrow> instruction" where
  "resolve store t =
     (case t of (opcode, r, r1, r2) \<Rightarrow> (opcode, store ! r, store ! r1, map_option ((!) store) r2))"

text \<open>\<^verbatim>\<open>chr\<close> of a register number: a byte, and an error outside \<^verbatim>\<open>range(256)\<close>.\<close>

definition chr :: "nat option \<Rightarrow> error + char" where
  "chr n =
     (case n of
        None \<Rightarrow> Inl TypeError
      | Some k \<Rightarrow> if k < 256 then Inr (char_of k) else Inl ChrNotInRange)"

definition to_string :: "host \<Rightarrow> instruction \<Rightarrow> error + string" where
  "to_string H t =
     (case t of (opcode, store, a1, a2) \<Rightarrow>
        (case opcodes H opcode of
           None \<Rightarrow> Inl KeyError
         | Some c \<Rightarrow>
             (case chr (Some c) of
                Inl e \<Rightarrow> Inl e
              | Inr cop \<Rightarrow>
                  (case chr (reg_n store) of
                     Inl e \<Rightarrow> Inl e
                   | Inr cs \<Rightarrow>
                       (case chr (reg_n a1) of
                          Inl e \<Rightarrow> Inl e
                        | Inr ca1 \<Rightarrow>
                            (case (case a2 of None \<Rightarrow> chr (Some 0) | Some r \<Rightarrow> chr (reg_n r)) of
                               Inl e \<Rightarrow> Inl e
                             | Inr ca2 \<Rightarrow> Inr [cop, cs, ca1, ca2]))))))"

text \<open>The body of \<^verbatim>\<open>''.join([to_string(*t) for t in program])\<close>.\<close>

definition join_string :: "host \<Rightarrow> instruction \<Rightarrow> string \<Rightarrow> error + string" where
  "join_string H t prog_str =
     (case to_string H t of Inl e \<Rightarrow> Inl e | Inr s \<Rightarrow> Inr (prog_str @ s))"

text \<open>\<^verbatim>\<open>numexpr\<close> from the comment \<^verbatim>\<open># canonicalize the variables\<close> on; \<open>ex\<close> is an \<^verbatim>\<open>OpNode\<close>.\<close>

definition numexpr_node :: "host \<Rightarrow> node \<Rightarrow> string list option \<Rightarrow> bool \<Rightarrow> error + compiled" where
  "numexpr_node H ex input_order precompiled =
     (case fold canonicalize_variable (walk ex) ([], Map.empty) of (name_map, node_map0) \<Rightarrow>
     (case check_input_order H name_map input_order of
        Inl e \<Rightarrow> Inl e
      | Inr order \<Rightarrow>
     (case fold canonicalize_constant (walk ex) ([], node_map0) of (const_map, node_map) \<Rightarrow>
     (case foldE (assign_input name_map) (enumerate 0 order) (Map.empty, []) of
        Inl e \<Rightarrow> Inl e
      | Inr st1 \<Rightarrow>
     (case foldE (assign_constant const_map) (enumerate 0 (value_keys H (map fst const_map)))
             (fold (assign_temporary node_map) (walk ex) st1) of
        Inl e \<Rightarrow> Inl e
      | Inr (registers0, store0) \<Rightarrow>
     (case foldE (reuse_temporary node_map store0) (walk ex) registers0 of
        Inl e \<Rightarrow> Inl e
      | Inr registers \<Rightarrow>
     (case output_register registers (node_id ex) store0 of
        Inl e \<Rightarrow> Inl e
      | Inr store1 \<Rightarrow>
     (case foldE (emit (length order) node_map registers) (walk ex) ([], store1, []) of
        Inl e \<Rightarrow> Inl e
      | Inr (program, store, seen_temps) \<Rightarrow>
          if precompiled then Inr (Precompiled (map (resolve store) program))
          else
            (case foldE (join_string H) (map (resolve store) program) [] of
               Inl e \<Rightarrow> Inl e
             | Inr prog_str \<Rightarrow>
                 Inr (Compiled
                   \<lparr>nex_n_inputs = length order, nex_n_temps = length seen_temps,
                    nex_program = prog_str,
                    nex_constants = map to_float (value_keys H (map fst const_map)),
                    nex_input_names = order\<rparr>))))))))))"

text \<open>
  The argument \<open>ex\<close> of \<^verbatim>\<open>numexpr\<close> and \<^verbatim>\<open>evaluate\<close>: a string, or another host object.
\<close>

datatype expression = Text string | Object pyval

text \<open>
  \<^verbatim>\<open>numexpr\<close>. A string is first made an expression (\<open>expression_of\<close> is the statement
  \<^verbatim>\<open>if isinstance(ex, str): ex = string2expression(ex)\<close>).
  What is not an \<^verbatim>\<open>OpNode\<close> is wrapped into a \<^verbatim>\<open>copy\<close>; when that is not
  a node at all, the first walk over the wrapped operand raises \<^verbatim>\<open>AttributeError\<close>, the
  operand having no method \<^verbatim>\<open>walk\<close>.
\<close>

definition expression_of :: "host \<Rightarrow> expression \<Rightarrow> heap \<Rightarrow> error + pyval \<times> heap" where
  "expression_of H ex h =
     (case ex of Text s \<Rightarrow> string2expression H s h | Object v \<Rightarrow> Inr (v, h))"

definition numexpr ::
  "host \<Rightarrow> expression \<Rightarrow> string list option \<Rightarrow> bool \<Rightarrow> heap \<Rightarrow> error + compiled" where
  "numexpr H ex input_order precompiled h =
     (case expression_of H ex h of
        Inl e \<Rightarrow> Inl e
      | Inr (PyNode x, h') \<Rightarrow>
          if is_OpNode x then numexpr_node H x input_order precompiled
          else
            (case OpNode_new (maxint H) ''copy'' [x] h' of
               Inl e \<Rightarrow> Inl e
             | Inr (w, h'') \<Rightarrow> numexpr_node H w input_order precompiled)
      | Inr (v, h') \<Rightarrow> Inl AttributeError)"

section \<open>The cache\<close>

text \<open>
  \<^verbatim>\<open>evaluate\<close> with the module's dictionary \<^verbatim>\<open>_numexpr_cache\<close> as state. The frame of the
  caller gives the default dictionaries. The call \<^verbatim>\<open>compiled_ex(*arguments)\<close> runs the
  virtual machine of the extension module: the result here is the call, the compiled
  object and its arguments.
\<close>

type_synonym cache = "string \<Rightarrow> NumExpr option"

record 'a frame =
  f_locals :: "string \<Rightarrow> 'a option"
  f_globals :: "string \<Rightarrow> 'a option"

definition lookup_argument ::
  "(string \<Rightarrow> 'a option) \<Rightarrow> (string \<Rightarrow> 'a option) \<Rightarrow> string \<Rightarrow> 'a list \<Rightarrow> error + 'a list" where
  "lookup_argument local_dict global_dict name arguments =
     (case local_dict name of
        Some a \<Rightarrow> Inr (arguments @ [a])
      | None \<Rightarrow>
          (case global_dict name of
             Some a \<Rightarrow> Inr (arguments @ [a])
           | None \<Rightarrow> Inl KeyError))"

definition evaluate ::
  "host \<Rightarrow> 'a frame \<Rightarrow> expression \<Rightarrow> (string \<Rightarrow> 'a option) option \<Rightarrow>
   (string \<Rightarrow> 'a option) option \<Rightarrow> heap \<Rightarrow> cache \<Rightarrow> (error + NumExpr \<times> 'a list) \<times> cache" where
  "evaluate H call_frame ex local_dict global_dict h numexpr_cache =
     (case ex of
        Object v \<Rightarrow> (Inl NotAString, numexpr_cache)
      | Text s \<Rightarrow>
          (case (case numexpr_cache s of
                   Some compiled_ex \<Rightarrow> (Inr compiled_ex, numexpr_cache)
                 | None \<Rightarrow>
                     (case numexpr H (Text s) None False h of
                        Inl e \<Rightarrow> (Inl e, numexpr_cache)
                      | Inr (Precompiled program) \<Rightarrow> (Inl TypeError, numexpr_cache)
                      | Inr (Compiled compiled_ex) \<Rightarrow>
                          (Inr compiled_ex, numexpr_cache(s \<mapsto> compiled_ex)))) of
             (Inl e, cache') \<Rightarrow> (Inl e, cache')
           | (Inr compiled_ex, cache') \<Rightarrow>
               (case foldE
                    (lookup_argument
                       (case local_dict of None \<Rightarrow> f_locals call_frame | Some d \<Rightarrow> d)
                       (case global_dict of None \<Rightarrow> f_globals call_frame | Some d \<Rightarrow> d))
                    (nex_input_names compiled_ex) [] of
                  Inl e \<Rightarrow> (Inl e, cache')
                | Inr arguments \<Rightarrow> (Inr (compiled_ex, arguments), cache'))))"

section \<open>Hosts\<close>

text \<open>The numbers that a syntax tree holds are numbers of the host.\<close>

fun python_literals :: "int \<Rightarrow> pyexpr \<Rightarrow> bool" where
  "python_literals mx (Num v) = python_number mx v"
| "python_literals mx (Name s) = True"
| "python_literals mx (BinOp l f r) = (python_literals mx l \<and> python_literals mx r)"
| "python_literals mx (UnaryOp u e) = python_literals mx e"

text \<open>
  A dictionary iterates every key it holds exactly once: the iteration order of a host is
  a permutation of the keys. The largest \<^verbatim>\<open>int\<close> is at least that of a platform with 32-bit
  integers, and the parser reads a literal beyond it as a \<^verbatim>\<open>long\<close>, never as an \<^verbatim>\<open>int\<close>.
\<close>

definition host_ok :: "host \<Rightarrow> bool" where
  "host_ok H \<longleftrightarrow>
     (\<forall>ks. mset (name_keys H ks) = mset ks) \<and> (\<forall>ks. mset (value_keys H ks) = mset ks) \<and>
     2147483647 \<le> maxint H \<and>
     (\<forall>s c. parse H s = Some c \<longrightarrow> python_literals (maxint H) c)"

text \<open>
  A host for the examples. Its parser knows the texts of the examples, and reads an integer
  literal above \<open>maxint\<close> as a \<^verbatim>\<open>long\<close>; \<open>maxint\<close> is that of a platform with 64-bit integers.
  Its opcode table numbers the opcodes in some order. Its dictionaries iterate string keys
  in sorted order and numeric keys by ascending value. For a dictionary of at most five keys
  that are \<^verbatim>\<open>int\<close>s from 0 to 7 this is the order of CPython 2: the table has eight slots, the
  hash of such a key is the key, so the key \<open>k\<close> is in slot \<open>k\<close>, and the slots are iterated
  in ascending order. For other keys the order is a choice of this host.
\<close>

definition example_parse :: "string \<Rightarrow> pyexpr option" where
  "example_parse = map_of
     [(''a'', Name ''a''),
      (''a-1'', BinOp (Name ''a'') Sub (Num (PyInt 1))),
      (''a/2'', BinOp (Name ''a'') Div (Num (PyInt 2))),
      (''a/0'', BinOp (Name ''a'') Div (Num (PyInt 0))),
      (''2+3'', BinOp (Num (PyInt 2)) Add (Num (PyInt 3))),
      (''a+a'', BinOp (Name ''a'') Add (Name ''a'')),
      (''a+b'', BinOp (Name ''a'') Add (Name ''b'')),
      (''b+a'', BinOp (Name ''b'') Add (Name ''a'')),
      (''1+1*x'', BinOp (Num (PyInt 1)) Add (BinOp (Num (PyInt 1)) Mult (Name ''x''))),
      (''a*2+1'', BinOp (BinOp (Name ''a'') Mult (Num (PyInt 2))) Add (Num (PyInt 1))),
      (''a+b+c'', BinOp (BinOp (Name ''a'') Add (Name ''b'')) Add (Name ''c'')),
      (''9223372036854775808-a'', BinOp (Num (PyLong 9223372036854775808)) Sub (Name ''a''))]"

definition example_opcodes :: "string \<Rightarrow> nat option" where
  "example_opcodes = map_of
     [(''copy'', 1), (''neg'', 2), (''add'', 3), (''sub'', 4), (''mul'', 5), (''div'', 6),
      (''add_c'', 7), (''sub_c'', 8), (''mul_c'', 9), (''div_c'', 10)]"

definition example_host :: host where
  "example_host =
     \<lparr>parse = example_parse, name_keys = sort, value_keys = sort_key to_float,
      opcodes = example_opcodes, maxint = 9223372036854775807\<rparr>"

definition example_program :: NumExpr where
  "example_program =
     \<lparr>nex_n_inputs = 2, nex_n_temps = 0,
      nex_program = [char_of (3::nat), char_of (0::nat), char_of (1::nat), char_of (2::nat)],
      nex_constants = [], nex_input_names = [''a'', ''b'']\<rparr>"

definition example_frame :: "nat frame" where
  "example_frame = \<lparr>f_locals = [''a'' \<mapsto> 10], f_globals = [''b'' \<mapsto> 20]\<rparr>"

section \<open>What a compiled program is compared with\<close>

text \<open>
  An expression is well formed when an identity stands for one object (two nodes of the
  walk with the same identity are the same node) and every operation has an operand.
\<close>

definition well_formed :: "node \<Rightarrow> bool" where
  "well_formed ex \<longleftrightarrow>
     (\<forall>a\<in>set (walk ex). \<forall>b\<in>set (walk ex). node_id a = node_id b \<longrightarrow> a = b) \<and>
     (\<forall>a\<in>set (walk ex). case a of OpNode i opc args \<Rightarrow> args \<noteq> [] | _ \<Rightarrow> True)"

text \<open>
  The operation that \<^verbatim>\<open>numexpr\<close> compiles for a node \<open>ex\<close>: the node itself, or the
  \<^verbatim>\<open>copy\<close> of it, a new object.
\<close>

definition wrapped :: "node \<Rightarrow> heap \<Rightarrow> node" where
  "wrapped ex h = (if is_OpNode ex then ex else OpNode h ''copy'' [ex])"

text \<open>The elements of a list, each once, in the order of their first occurrence.\<close>

definition first_seen :: "'a list \<Rightarrow> 'a list" where
  "first_seen xs = rev (remdups (rev xs))"

definition variable_names :: "node \<Rightarrow> string list" where
  "variable_names ex = first_seen [s. VariableNode i s \<leftarrow> walk ex]"

definition constant_values :: "node \<Rightarrow> pynum list" where
  "constant_values ex = [v. ConstantNode i v \<leftarrow> walk ex]"

text \<open>The keys of \<open>const_map\<close> in insertion order.\<close>

definition const_keys :: "node \<Rightarrow> pynum list" where
  "const_keys ex = map fst (fst (fold canonicalize_constant (walk ex) ([], Map.empty)))"

text \<open>The last position of an element in a list.\<close>

fun last_index :: "'a list \<Rightarrow> 'a \<Rightarrow> nat option" where
  "last_index [] x = None"
| "last_index (y # ys) x =
     (case last_index ys x of
        Some j \<Rightarrow> Some (Suc j)
      | None \<Rightarrow> if y = x then Some 0 else None)"

text \<open>
  The registers of a finished program: the output register, and a temporary register
  numbered above the inputs.
\<close>

definition is_output :: "Register \<Rightarrow> bool" where
  "is_output r \<longleftrightarrow> r = Register_new (Some 0) None False False None"

definition is_temporary :: "nat \<Rightarrow> Register \<Rightarrow> bool" where
  "is_temporary n_inputs r \<longleftrightarrow>
     (case reg_n r of
        None \<Rightarrow> False
      | Some k \<Rightarrow> n_inputs < k \<and> r = Register_new (Some k) None True False None)"

text \<open>
  The register that an operand must have in the program, given the input order and the
  keys of the constants in the order the host iterates them: a variable has the input
  register of the last position of its name, a constant the constant register of the
  position of its value, an operation the output register or a temporary.
\<close>

fun operand_ok :: "string list \<Rightarrow> pynum list \<Rightarrow> node \<Rightarrow> Register \<Rightarrow> bool" where
  "operand_ok order keys (VariableNode i s) r =
     (case last_index order s of
        None \<Rightarrow> False
      | Some j \<Rightarrow> r = Register_new (Some (Suc j)) (Some s) False False None)"
| "operand_ok order keys (ConstantNode i v) r =
     (case reg_n r of
        None \<Rightarrow> False
      | Some p \<Rightarrow>
          p < length keys \<and> py_eq (keys ! p) v \<and>
          r = Register_new (Some p) None False True (Some (keys ! p)))"
| "operand_ok order keys (OpNode i opc args) r =
     (is_output r \<or> is_temporary (length order) r)"

fun instr_ok :: "string list \<Rightarrow> pynum list \<Rightarrow> node \<Rightarrow> instruction \<Rightarrow> bool" where
  "instr_ok order keys (OpNode i opc args) (opcode, d, a1, a2) =
     (opcode = opc \<and> (is_output d \<or> is_temporary (length order) d) \<and>
      (case args of
         [] \<Rightarrow> False
       | b1 # rest \<Rightarrow>
           operand_ok order keys b1 a1 \<and>
           (case rest of
              [] \<Rightarrow> a2 = None
            | b2 # others \<Rightarrow>
                (case a2 of None \<Rightarrow> False | Some r \<Rightarrow> operand_ok order keys b2 r))))"
| "instr_ok order keys a t = False"

section \<open>Invariants of the compiler\<close>

text \<open>
  The register of a temporary that has no number yet: \<^verbatim>\<open>Register(None, temporary=True)\<close>.
\<close>

definition unnumbered :: Register where
  "unnumbered = Register_new None None True False None"

text \<open>
  The store once the registers are assigned: \<open>n\<close> input registers, then \<open>m\<close> temporaries
  without number, then the registers of the constants. Only the temporaries are temporary.
\<close>

definition layout :: "nat \<Rightarrow> nat \<Rightarrow> Register list \<Rightarrow> bool" where
  "layout n m store \<longleftrightarrow>
     n + m \<le> length store \<and>
     (\<forall>r<length store. reg_temporary (store ! r) \<longrightarrow> n \<le> r \<and> r < n + m) \<and>
     (\<forall>r. n \<le> r \<and> r < n + m \<longrightarrow> store ! r = unnumbered)"

text \<open>
  Every node of the walk has a register, found under its canonical identity; the
  register of an operation, and only that, is one of the \<open>m\<close> temporaries.
\<close>

definition keyed :: "node list \<Rightarrow> node_map \<Rightarrow> registers \<Rightarrow> nat \<Rightarrow> nat \<Rightarrow> nat \<Rightarrow> bool" where
  "keyed W nm regs n m N \<longleftrightarrow>
     (\<forall>a\<in>set W. \<exists>r. regs (node_map_get nm (node_id a)) = Some r \<and> r < N \<and>
        (is_OpNode a \<longleftrightarrow> n \<le> r \<and> r < n + m))"

text \<open>
  An operation and a variable or constant are never stored under the same key.
\<close>

definition separate :: "node list \<Rightarrow> node_map \<Rightarrow> bool" where
  "separate W nm \<longleftrightarrow>
     (\<forall>a\<in>set W. \<forall>b\<in>set W. is_OpNode a \<and> \<not> is_OpNode b \<longrightarrow>
        node_map_get nm (node_id a) \<noteq> node_map_get nm (node_id b))"

text \<open>
  The operands of an operation of the walk are in the walk, and there is at least one.
\<close>

definition closed :: "node list \<Rightarrow> bool" where
  "closed W \<longleftrightarrow> (\<forall>i opc args. OpNode i opc args \<in> set W \<longrightarrow> args \<noteq> [] \<and> set args \<subseteq> set W)"

text \<open>
  The store while the program is emitted, \<open>store0\<close> being the store before: the registers
  of the inputs and constants are as before; a temporary is the output register, or has no
  number and was not seen, or was seen and is numbered above the inputs; the output register
  stays what it is.
\<close>

definition emitting :: "nat \<Rightarrow> nat \<Rightarrow> Register list \<Rightarrow> Register list \<times> nat list \<Rightarrow> bool" where
  "emitting n m store0 st \<longleftrightarrow>
     (case st of (store, seen) \<Rightarrow>
        length store = length store0 \<and>
        (\<forall>r<length store. \<not> (n \<le> r \<and> r < n + m) \<longrightarrow>
           store ! r = store0 ! r \<and> \<not> reg_temporary (store ! r)) \<and>
        (\<forall>r. n \<le> r \<and> r < n + m \<longrightarrow>
           is_output (store ! r) \<or> (store ! r = unnumbered \<and> r \<notin> set seen) \<or>
           (is_temporary n (store ! r) \<and> r \<in> set seen)) \<and>
        (\<forall>r<length store. is_output (store0 ! r) \<longrightarrow> is_output (store ! r)))"

text \<open>
  A register that has its final fields: it is in the store and is no temporary without number.
\<close>

definition settled :: "Register list \<Rightarrow> nat \<Rightarrow> bool" where
  "settled store r \<longleftrightarrow> r < length store \<and> store ! r \<noteq> unnumbered"

text \<open>
  An entry of the program whose registers are settled.
\<close>

fun entry_settled :: "Register list \<Rightarrow> entry \<Rightarrow> bool" where
  "entry_settled store (opcode, d, r1, r2) =
     (settled store d \<and> settled store r1 \<and> (case r2 of None \<Rightarrow> True | Some r \<Rightarrow> settled store r))"

text \<open>
  The entry that the emission loop appends for an operation: the opcode, the register
  of the operation and the registers of its first and second operand.
\<close>

fun entry_for :: "node_map \<Rightarrow> registers \<Rightarrow> node \<Rightarrow> entry \<Rightarrow> bool" where
  "entry_for nm regs (OpNode i opc (b1 # rest)) (opcode, d, r1, r2) =
     (opcode = opc \<and> regs (node_map_get nm i) = Some d \<and>
      regs (node_map_get nm (node_id b1)) = Some r1 \<and>
      (case rest of
         [] \<Rightarrow> r2 = None
       | b2 # others \<Rightarrow>
           (case r2 of None \<Rightarrow> False | Some r \<Rightarrow> regs (node_map_get nm (node_id b2)) = Some r)))"
| "entry_for nm regs a e = False"

text \<open>
  The register of a variable: the input register of the last position of its name.
\<close>

definition var_assigned ::
  "string list \<Rightarrow> node_map \<Rightarrow> registers \<Rightarrow> Register list \<Rightarrow> node list \<Rightarrow> bool" where
  "var_assigned order nm regs store W \<longleftrightarrow>
     (\<forall>i s. VariableNode i s \<in> set W \<longrightarrow>
        (\<exists>j. regs (node_map_get nm i) = Some j \<and> last_index order s = Some j \<and>
           j < length order \<and>
           store ! j = Register_new (Some (Suc j)) (Some s) False False None))"

text \<open>
  The register of a constant: the constant register at the position of its value in the
  keys, above the \<open>base\<close> of input registers and temporaries.
\<close>

definition const_assigned ::
  "pynum list \<Rightarrow> nat \<Rightarrow> node_map \<Rightarrow> registers \<Rightarrow> Register list \<Rightarrow> node list \<Rightarrow> bool" where
  "const_assigned keys base nm regs store W \<longleftrightarrow>
     (\<forall>i v. ConstantNode i v \<in> set W \<longrightarrow>
        (\<exists>p. regs (node_map_get nm i) = Some (base + p) \<and> p < length keys \<and>
           py_eq (keys ! p) v \<and>
           store ! (base + p) = Register_new (Some p) None False True (Some (keys ! p))))"






text \<open>
  The order of the inputs that a compilation uses: the given order when there is a
  non-empty one, and the sorted names of the expression otherwise.
\<close>

definition given_order :: "string list option \<Rightarrow> node \<Rightarrow> string list" where
  "given_order input_order ex =
     (case input_order of
        None \<Rightarrow> sort (variable_names ex)
      | Some order \<Rightarrow> if order = [] then sort (variable_names ex) else order)"

text \<open>
  The operands of the operations of a program, each with the register that the
  instruction of its operation names for it.
\<close>

fun operands :: "node \<Rightarrow> instruction \<Rightarrow> (node \<times> Register) list" where
  "operands (OpNode i opc args) (opcode, d, a1, a2) =
     zip args (a1 # (case a2 of None \<Rightarrow> [] | Some r \<Rightarrow> [r]))"
| "operands a t = []"

definition operand_registers :: "node list \<Rightarrow> instruction list \<Rightarrow> (node \<times> Register) list" where
  "operand_registers ops prog = concat (map (\<lambda>(a, t). operands a t) (zip ops prog))"

section \<open>Properties\<close>

subsection \<open>Hosts\<close>

lemma mset_singleton_list: "mset xs = {#k#} \<Longrightarrow> xs = [k]"
  by (cases xs) auto

lemma host_ok_value_single:
  assumes "host_ok H"
  shows "value_keys H [k] = [k]"
proof -
  have "mset (value_keys H [k]) = mset [k]"
    using assms unfolding host_ok_def by blast
  then show ?thesis by (simp add: mset_singleton_list)
qed

lemma host_ok_value_nil:
  assumes "host_ok H"
  shows "value_keys H [] = []"
proof -
  have "mset (value_keys H []) = mset []"
    using assms unfolding host_ok_def by blast
  then show ?thesis by simp
qed

lemma host_ok_maxint: "host_ok H \<Longrightarrow> 2147483647 \<le> maxint H"
  by (simp add: host_ok_def)

lemma example_parse_literals:
  "example_parse s = Some c \<Longrightarrow> python_literals 9223372036854775807 c"
  by (auto simp: example_parse_def split: if_splits)

lemma host_ok_example: "host_ok example_host"
  by (simp add: host_ok_def example_host_def example_parse_literals)

lemma int_result_small:
  "2147483647 \<le> mx \<Longrightarrow> - 2147483648 \<le> i \<Longrightarrow> i \<le> 2147483647 \<Longrightarrow> int_result mx i = PyInt i"
  by (simp add: int_result_def)

subsection \<open>Construction of operations\<close>

lemma OpNode_new_nonconst_sub:
  "\<not> is_ConstantNode x \<Longrightarrow>
   OpNode_new mx ''sub'' [x, ConstantNode i c] h =
     Inr (OpNode h ''add_c'' [x, ConstantNode (Suc h) (py_neg mx c)], Suc (Suc h))"
  by (simp add: OpNode_new_def ConstantNode_new_def)

lemma py_div_one:
  "py_div mx (PyFloat 1) c =
     (if to_float c = 0 then Inl ZeroDivisionError else Inr (PyFloat (1 / to_float c)))"
  by (cases c) simp_all

lemma OpNode_new_nonconst_div:
  "\<not> is_ConstantNode x \<Longrightarrow>
   OpNode_new mx ''div'' [x, ConstantNode i c] h =
     (if to_float c = 0 then Inl ZeroDivisionError
      else Inr (OpNode h ''mul_c'' [x, ConstantNode (Suc h) (PyFloat (1 / to_float c))],
                Suc (Suc h)))"
  by (simp add: OpNode_new_def ConstantNode_new_def py_div_one)

lemma OpNode_new_const_first:
  "is_ConstantNode x \<Longrightarrow>
   OpNode_new mx opc [x, y] h = Inr (OpNode h (opc @ ''_c'') [x, y], Suc h)"
  by (simp add: OpNode_new_def)

lemma method_op_number: "method_op mx f x (PyNum c) h = binop mx (opname f) x (PyNum c) h"
  by (cases x; cases f)
     (simp_all add: ExpressionNode_add_def ExpressionNode_sub_def ExpressionNode_mul_def
        ExpressionNode_div_def)

lemma method_rop_any: "method_rop mx f x other h = binop mx (opname f) x other h"
  by (cases f)
     (simp_all add: method_rop_def ExpressionNode_radd_def ExpressionNode_rsub_def
        ExpressionNode_rmul_def ExpressionNode_rdiv_def)

lemma binop_number:
  "\<not> is_long c \<Longrightarrow>
   binop mx opc x (PyNum c) h =
     (case OpNode_new mx opc [x, ConstantNode h c] (Suc h) of
        Inl e \<Rightarrow> Inl e | Inr (r, h') \<Rightarrow> Inr (PyNode r, h'))"
  by (cases c) (simp_all add: ConstantNode_new_def)

lemma binop_long: "is_long c \<Longrightarrow> binop mx opc x (PyNum c) h = Inr (NotImplemented, h)"
  by (cases c) simp_all

lemma binary_node_number:
  "binary mx f (PyNode x) (PyNum c) h =
     (case binop mx (opname f) x (PyNum c) h of
        Inl e \<Rightarrow> Inl e
      | Inr (NotImplemented, h') \<Rightarrow> Inl TypeError
      | Inr (r, h') \<Rightarrow> Inr (r, h'))"
  by (simp add: method_op_number)

lemma binary_number_node:
  "binary mx f (PyNum c) (PyNode x) h =
     (case binop mx (opname f) x (PyNum c) h of
        Inl e \<Rightarrow> Inl e
      | Inr (NotImplemented, h') \<Rightarrow> Inl TypeError
      | Inr (r, h') \<Rightarrow> Inr (r, h'))"
  by (simp add: method_rop_any)

lemmas compile_defs =
  numexpr_def expression_of_def string2expression_def co_names_def bind_name_def
  Expression_getattr_def
  numexpr_node_def check_input_order_def assign_input_def assign_constant_def
  output_register_def reg_def resolve_def Register_new_def node_map_get_def
  OpNode_new_def ConstantNode_new_def method_rop_def
  ExpressionNode_add_def ExpressionNode_sub_def ExpressionNode_mul_def ExpressionNode_div_def
  ExpressionNode_radd_def ExpressionNode_rsub_def ExpressionNode_rmul_def ExpressionNode_rdiv_def
  py_eq_def to_string_def join_string_def chr_def int_result_def

subsection \<open>The walk\<close>

lemma self_in_walk: "a \<in> set (walk a)"
  by (cases a) simp_all

lemma walk_args:
  "OpNode i opc args \<in> set (walk ex) \<Longrightarrow> b \<in> set args \<Longrightarrow> b \<in> set (walk ex)"
proof (induction ex rule: walk.induct)
  case (1 j opc' as)
  show ?case
  proof (cases "OpNode i opc args = OpNode j opc' as")
    case True
    with "1.prems" have "b \<in> set as" by simp
    then show ?thesis using self_in_walk [of b] by auto
  next
    case False
    with "1.prems" obtain a where a: "a \<in> set as" "OpNode i opc args \<in> set (walk a)"
      by auto
    with "1.IH" "1.prems" have "b \<in> set (walk a)" by blast
    with a show ?thesis by auto
  qed
qed simp_all

lemma first_seen_snoc:
  "first_seen (xs @ [x]) = (if x \<in> set xs then first_seen xs else first_seen xs @ [x])"
  by (simp add: first_seen_def)

lemma set_first_seen [simp]: "set (first_seen xs) = set xs"
  by (simp add: first_seen_def)

lemma distinct_first_seen [simp]: "distinct (first_seen xs)"
  by (simp add: first_seen_def)

lemma first_seen_nil [simp]: "first_seen [] = []"
  by (simp add: first_seen_def)

subsection \<open>Canonical variables\<close>

lemma canonicalize_variables:
  "fold canonicalize_variable xs ([], Map.empty) = (nmap, nm) \<Longrightarrow>
   map fst nmap = first_seen [s. VariableNode i s \<leftarrow> xs] \<and>
   (\<forall>s c. (s, c) \<in> set nmap \<longrightarrow> VariableNode c s \<in> set xs) \<and>
   dom nm = {i. \<exists>s. VariableNode i s \<in> set xs} \<and>
   ((\<forall>a\<in>set xs. \<forall>b\<in>set xs. node_id a = node_id b \<longrightarrow> a = b) \<longrightarrow>
      (\<forall>i s. VariableNode i s \<in> set xs \<longrightarrow> nm i = map_of nmap s \<and> nm i \<noteq> None))"
proof (induction xs arbitrary: nmap nm rule: rev_induct)
  case Nil
  then show ?case by simp
next
  case (snoc x xs)
  obtain nmap0 nm0 where f: "fold canonicalize_variable xs ([], Map.empty) = (nmap0, nm0)"
    by (cases "fold canonicalize_variable xs ([], Map.empty)") auto
  note IH = snoc.IH [OF f]
  from snoc.prems f have step: "canonicalize_variable x (nmap0, nm0) = (nmap, nm)" by simp
  show ?case
  proof (cases x)
    case (VariableNode a name)
    have keys: "set (map fst nmap0) = {s. \<exists>i. VariableNode i s \<in> set xs}"
      using IH by (auto simp: image_iff split: node.splits) 
    show ?thesis
    proof (cases "map_of nmap0 name")
      case None
      then have notin: "name \<notin> set (map fst nmap0)"
        by (simp add: map_of_eq_None_iff)
      from step VariableNode None have eq: "nmap = nmap0 @ [(name, a)]" "nm = nm0(a \<mapsto> a)"
        by simp_all
      have A: "map fst nmap = first_seen [s. VariableNode i s \<leftarrow> xs @ [x]]"
        using IH notin VariableNode eq by (simp add: first_seen_snoc)
      have B: "\<forall>s c. (s, c) \<in> set nmap \<longrightarrow> VariableNode c s \<in> set (xs @ [x])"
        using IH eq VariableNode by auto
      have C: "dom nm = {i. \<exists>s. VariableNode i s \<in> set (xs @ [x])}"
        using IH eq VariableNode by auto
      have D: "nm i = map_of nmap s \<and> nm i \<noteq> None"
        if wf: "\<forall>a\<in>set (xs @ [x]). \<forall>b\<in>set (xs @ [x]). node_id a = node_id b \<longrightarrow> a = b"
          and v: "VariableNode i s \<in> set (xs @ [x])" for i s
      proof (cases "i = a")
        case True
        with wf v VariableNode have "s = name"
          by (metis node.inject(1) node_id.simps(1) in_set_conv_decomp)
        with True eq None show ?thesis by (simp add: map_add_def)
      next
        case False
        with v VariableNode have v': "VariableNode i s \<in> set xs" by auto
        from wf have "\<forall>a\<in>set xs. \<forall>b\<in>set xs. node_id a = node_id b \<longrightarrow> a = b" by simp
        with IH v' have h1: "nm0 i = map_of nmap0 s" and h2: "nm0 i \<noteq> None" by blast+
        from h2 obtain y where "nm0 i = Some y" by auto
        with h1 have y: "map_of nmap0 s = Some y" "nm0 i = Some y" by simp_all
        with False eq show ?thesis by (simp add: map_add_def)
      qed
      from A B C D show ?thesis by blast
    next
      case (Some c)
      from step VariableNode Some have eq: "nmap = nmap0" "nm = nm0(a \<mapsto> c)"
        by simp_all
      from Some have isin: "name \<in> set (map fst nmap0)"
        by (metis map_of_eq_None_iff option.distinct(1) set_map)
      have A: "map fst nmap = first_seen [s. VariableNode i s \<leftarrow> xs @ [x]]"
        using IH isin VariableNode eq by (simp add: first_seen_snoc)
      have B: "\<forall>s c. (s, c) \<in> set nmap \<longrightarrow> VariableNode c s \<in> set (xs @ [x])"
        using IH eq VariableNode by auto
      have C: "dom nm = {i. \<exists>s. VariableNode i s \<in> set (xs @ [x])}"
        using IH eq VariableNode by auto
      have D: "nm i = map_of nmap s \<and> nm i \<noteq> None"
        if wf: "\<forall>a\<in>set (xs @ [x]). \<forall>b\<in>set (xs @ [x]). node_id a = node_id b \<longrightarrow> a = b"
          and v: "VariableNode i s \<in> set (xs @ [x])" for i s
      proof (cases "i = a")
        case True
        with wf v VariableNode have "s = name"
          by (metis node.inject(1) node_id.simps(1) in_set_conv_decomp)
        with True eq Some show ?thesis by simp
      next
        case False
        with v VariableNode have v': "VariableNode i s \<in> set xs" by auto
        from wf have "\<forall>a\<in>set xs. \<forall>b\<in>set xs. node_id a = node_id b \<longrightarrow> a = b" by simp
        with IH v' have h1: "nm0 i = map_of nmap0 s" and h2: "nm0 i \<noteq> None" by blast+
        from h2 obtain y where "nm0 i = Some y" by auto
        with h1 have y: "map_of nmap0 s = Some y" "nm0 i = Some y" by simp_all
        with False eq show ?thesis by simp
      qed
      from A B C D show ?thesis by blast
    qed
  next
    case (ConstantNode a v)
    with step have eq: "nmap = nmap0" "nm = nm0" by simp_all
    have mem: "VariableNode i s \<in> set (xs @ [x]) \<longleftrightarrow> VariableNode i s \<in> set xs" for i s
      using ConstantNode by auto
    have lst: "[s. VariableNode i s \<leftarrow> xs @ [x]] = [s. VariableNode i s \<leftarrow> xs]"
      using ConstantNode by simp
    have D: "nm i = map_of nmap s \<and> nm i \<noteq> None"
      if wf: "\<forall>a\<in>set (xs @ [x]). \<forall>b\<in>set (xs @ [x]). node_id a = node_id b \<longrightarrow> a = b"
        and v: "VariableNode i s \<in> set (xs @ [x])" for i s
    proof -
      from wf have "\<forall>a\<in>set xs. \<forall>b\<in>set xs. node_id a = node_id b \<longrightarrow> a = b" by simp
      with IH v mem eq show ?thesis by blast
    qed
    from IH D show ?thesis unfolding mem lst eq by blast
  next
    case (OpNode a opc args)
    with step have eq: "nmap = nmap0" "nm = nm0" by simp_all
    have mem: "VariableNode i s \<in> set (xs @ [x]) \<longleftrightarrow> VariableNode i s \<in> set xs" for i s
      using OpNode by auto
    have lst: "[s. VariableNode i s \<leftarrow> xs @ [x]] = [s. VariableNode i s \<leftarrow> xs]"
      using OpNode by simp
    have D: "nm i = map_of nmap s \<and> nm i \<noteq> None"
      if wf: "\<forall>a\<in>set (xs @ [x]). \<forall>b\<in>set (xs @ [x]). node_id a = node_id b \<longrightarrow> a = b"
        and v: "VariableNode i s \<in> set (xs @ [x])" for i s
    proof -
      from wf have "\<forall>a\<in>set xs. \<forall>b\<in>set xs. node_id a = node_id b \<longrightarrow> a = b" by simp
      with IH v mem eq show ?thesis by blast
    qed
    from IH D show ?thesis unfolding mem lst eq by blast
  qed
qed

subsection \<open>Canonical constants\<close>

lemma lookup_value_None_all:
  "lookup_value cmap v = None \<longleftrightarrow> (\<forall>p\<in>set cmap. to_float (fst p) \<noteq> to_float v)"
  by (induction cmap) (auto simp: py_eq_def split: if_splits)

lemma lookup_value_None:
  "lookup_value cmap v = None \<longleftrightarrow> to_float v \<notin> set (map (to_float \<circ> fst) cmap)"
  unfolding lookup_value_None_all by (auto simp: image_iff)

lemma lookup_value_snoc:
  "lookup_value (cmap @ [(k, c)]) v =
     (case lookup_value cmap v of
        Some y \<Rightarrow> Some y
      | None \<Rightarrow> if py_eq k v then Some c else None)"
  by (induction cmap) auto

lemma lookup_value_Some:
  "lookup_value cmap v = Some c \<Longrightarrow> \<exists>k. (k, c) \<in> set cmap \<and> py_eq k v"
  by (induction cmap) (auto split: if_splits)

lemma lookup_value_key:
  "distinct (map (to_float \<circ> fst) cmap) \<Longrightarrow> (k, c) \<in> set cmap \<Longrightarrow>
   lookup_value cmap k = Some c"
  by (induction cmap) (auto simp: py_eq_def image_iff)

lemma canonicalize_constant_fst:
  "fst (canonicalize_constant x (cm, nm)) = fst (canonicalize_constant x (cm, nm'))"
  by (cases x) (auto split: option.splits)

lemma fold_canonicalize_constant_fst:
  "fst (fold canonicalize_constant xs (cm, nm)) = fst (fold canonicalize_constant xs (cm, nm'))"
proof (induction xs arbitrary: cm nm nm')
  case Nil
  show ?case by simp
next
  case (Cons x xs)
  obtain c1 n1 where a: "canonicalize_constant x (cm, nm) = (c1, n1)"
    by (cases "canonicalize_constant x (cm, nm)") auto
  obtain c2 n2 where b: "canonicalize_constant x (cm, nm') = (c2, n2)"
    by (cases "canonicalize_constant x (cm, nm')") auto
  from a b canonicalize_constant_fst [of x cm nm nm'] have "c1 = c2" by simp
  with a b Cons.IH [of c1 n1 n2] show ?case by simp
qed

lemma canonicalize_constants:
  "fold canonicalize_constant xs ([], nm0) = (cmap, nm) \<Longrightarrow>
   map (to_float \<circ> fst) cmap = first_seen (map to_float [v. ConstantNode i v \<leftarrow> xs]) \<and>
   (\<forall>k c. (k, c) \<in> set cmap \<longrightarrow> ConstantNode c k \<in> set xs) \<and>
   (\<forall>i. (\<forall>v. ConstantNode i v \<notin> set xs) \<longrightarrow> nm i = nm0 i) \<and>
   ((\<forall>a\<in>set xs. \<forall>b\<in>set xs. node_id a = node_id b \<longrightarrow> a = b) \<longrightarrow>
      (\<forall>i v. ConstantNode i v \<in> set xs \<longrightarrow> nm i = lookup_value cmap v \<and> nm i \<noteq> None))"
proof (induction xs arbitrary: cmap nm rule: rev_induct)
  case Nil
  then show ?case by simp
next
  case (snoc x xs)
  obtain cmap0 nm1 where f: "fold canonicalize_constant xs ([], nm0) = (cmap0, nm1)"
    by (cases "fold canonicalize_constant xs ([], nm0)") auto
  note IH = snoc.IH [OF f]
  from snoc.prems f have step: "canonicalize_constant x (cmap0, nm1) = (cmap, nm)" by simp
  have wfsub: "\<forall>a\<in>set xs. \<forall>b\<in>set xs. node_id a = node_id b \<longrightarrow> a = b"
    if "\<forall>a\<in>set (xs @ [x]). \<forall>b\<in>set (xs @ [x]). node_id a = node_id b \<longrightarrow> a = b"
    using that by simp
  show ?case
  proof (cases x)
    case (ConstantNode a v)
    have lst: "map to_float [v. ConstantNode i v \<leftarrow> xs @ [x]] =
        map to_float [v. ConstantNode i v \<leftarrow> xs] @ [to_float v]"
      using ConstantNode by simp
    from IH have A0: "map (to_float \<circ> fst) cmap0 =
        first_seen (map to_float [v. ConstantNode i v \<leftarrow> xs])"
      by blast
    have keys: "set (map (to_float \<circ> fst) cmap0) = set (map to_float [v. ConstantNode i v \<leftarrow> xs])"
      by (simp only: A0 set_first_seen)
    show ?thesis
    proof (cases "lookup_value cmap0 v")
      case None
      then have notin: "to_float v \<notin> set (map to_float [v. ConstantNode i v \<leftarrow> xs])"
        using keys by (simp add: lookup_value_None)
      from step ConstantNode None have eq: "cmap = cmap0 @ [(v, a)]" "nm = nm1(a \<mapsto> a)"
        by simp_all
      have A: "map (to_float \<circ> fst) cmap = first_seen (map to_float [v. ConstantNode i v \<leftarrow> xs @ [x]])"
      proof -
        have "map (to_float \<circ> fst) cmap = map (to_float \<circ> fst) cmap0 @ [to_float v]"
          using eq by simp
        also have "\<dots> = first_seen (map to_float [v. ConstantNode i v \<leftarrow> xs]) @ [to_float v]"
          by (simp only: A0)
        also have "\<dots> = first_seen (map to_float [v. ConstantNode i v \<leftarrow> xs] @ [to_float v])"
          using notin by (simp only: first_seen_snoc if_False)
        finally show ?thesis by (simp only: lst)
      qed
      have B: "\<forall>k c. (k, c) \<in> set cmap \<longrightarrow> ConstantNode c k \<in> set (xs @ [x])"
        using IH eq ConstantNode by auto
      have C: "\<forall>i. (\<forall>v. ConstantNode i v \<notin> set (xs @ [x])) \<longrightarrow> nm i = nm0 i"
        using IH eq ConstantNode by auto
      have D: "nm i = lookup_value cmap w \<and> nm i \<noteq> None"
        if wf: "\<forall>a\<in>set (xs @ [x]). \<forall>b\<in>set (xs @ [x]). node_id a = node_id b \<longrightarrow> a = b"
          and v: "ConstantNode i w \<in> set (xs @ [x])" for i w
      proof (cases "i = a")
        case True
        with wf v ConstantNode have "w = v"
          by (metis node.inject(2) node_id.simps(2) in_set_conv_decomp)
        with True eq None show ?thesis by (simp add: lookup_value_snoc py_eq_def)
      next
        case False
        with v ConstantNode have v': "ConstantNode i w \<in> set xs" by auto
        with IH wfsub [OF wf] have h1: "nm1 i = lookup_value cmap0 w" and h2: "nm1 i \<noteq> None"
          by blast+
        from h2 obtain y where "nm1 i = Some y" by auto
        with h1 have "lookup_value cmap0 w = Some y" "nm1 i = Some y" by simp_all
        with False eq show ?thesis by (simp add: lookup_value_snoc)
      qed
      from A B C D show ?thesis by blast
    next
      case (Some c)
      then have isin: "to_float v \<in> set (map to_float [v. ConstantNode i v \<leftarrow> xs])"
        using keys lookup_value_None [of cmap0 v] by simp
      from step ConstantNode Some have eq: "cmap = cmap0" "nm = nm1(a \<mapsto> c)"
        by simp_all
      have A: "map (to_float \<circ> fst) cmap = first_seen (map to_float [v. ConstantNode i v \<leftarrow> xs @ [x]])"
      proof -
        have "map (to_float \<circ> fst) cmap = first_seen (map to_float [v. ConstantNode i v \<leftarrow> xs])"
          using eq by (simp only: A0)
        also have "\<dots> = first_seen (map to_float [v. ConstantNode i v \<leftarrow> xs] @ [to_float v])"
          using isin by (simp only: first_seen_snoc if_True)
        finally show ?thesis by (simp only: lst)
      qed
      have B: "\<forall>k c. (k, c) \<in> set cmap \<longrightarrow> ConstantNode c k \<in> set (xs @ [x])"
        using IH eq ConstantNode by auto
      have C: "\<forall>i. (\<forall>v. ConstantNode i v \<notin> set (xs @ [x])) \<longrightarrow> nm i = nm0 i"
        using IH eq ConstantNode by auto
      have D: "nm i = lookup_value cmap w \<and> nm i \<noteq> None"
        if wf: "\<forall>a\<in>set (xs @ [x]). \<forall>b\<in>set (xs @ [x]). node_id a = node_id b \<longrightarrow> a = b"
          and v: "ConstantNode i w \<in> set (xs @ [x])" for i w
      proof (cases "i = a")
        case True
        with wf v ConstantNode have "w = v"
          by (metis node.inject(2) node_id.simps(2) in_set_conv_decomp)
        with True eq Some show ?thesis by simp
      next
        case False
        with v ConstantNode have v': "ConstantNode i w \<in> set xs" by auto
        with IH wfsub [OF wf] have h1: "nm1 i = lookup_value cmap0 w" and h2: "nm1 i \<noteq> None"
          by blast+
        from h2 obtain y where "nm1 i = Some y" by auto
        with h1 have "lookup_value cmap0 w = Some y" "nm1 i = Some y" by simp_all
        with False eq show ?thesis by simp
      qed
      from A B C D show ?thesis by blast
    qed
  next
    case (VariableNode a s)
    with step have eq: "cmap = cmap0" "nm = nm1" by simp_all
    have mem: "ConstantNode i v \<in> set (xs @ [x]) \<longleftrightarrow> ConstantNode i v \<in> set xs" for i v
      using VariableNode by auto
    have lst: "[v. ConstantNode i v \<leftarrow> xs @ [x]] = [v. ConstantNode i v \<leftarrow> xs]"
      using VariableNode by simp
    have D: "nm i = lookup_value cmap w \<and> nm i \<noteq> None"
      if wf: "\<forall>a\<in>set (xs @ [x]). \<forall>b\<in>set (xs @ [x]). node_id a = node_id b \<longrightarrow> a = b"
        and v: "ConstantNode i w \<in> set (xs @ [x])" for i w
      using IH wfsub [OF wf] v mem eq by blast
    from IH D show ?thesis unfolding mem lst eq by blast
  next
    case (OpNode a opc args)
    with step have eq: "cmap = cmap0" "nm = nm1" by simp_all
    have mem: "ConstantNode i v \<in> set (xs @ [x]) \<longleftrightarrow> ConstantNode i v \<in> set xs" for i v
      using OpNode by auto
    have lst: "[v. ConstantNode i v \<leftarrow> xs @ [x]] = [v. ConstantNode i v \<leftarrow> xs]"
      using OpNode by simp
    have D: "nm i = lookup_value cmap w \<and> nm i \<noteq> None"
      if wf: "\<forall>a\<in>set (xs @ [x]). \<forall>b\<in>set (xs @ [x]). node_id a = node_id b \<longrightarrow> a = b"
        and v: "ConstantNode i w \<in> set (xs @ [x])" for i w
      using IH wfsub [OF wf] v mem eq by blast
    from IH D show ?thesis unfolding mem lst eq by blast
  qed
qed

subsection \<open>The input order\<close>

lemma host_ok_name_keys:
  assumes "host_ok H"
  shows "set (name_keys H ks) = set ks"
proof -
  have "mset (name_keys H ks) = mset ks"
    using assms unfolding host_ok_def by blast
  then show ?thesis by (metis set_mset_mset)
qed

lemma host_ok_value_keys: "host_ok H \<Longrightarrow> mset (value_keys H ks) = mset ks"
  by (simp add: host_ok_def)

lemma check_input_order_set:
  assumes "check_input_order H nmap io = Inr order" and "host_ok H"
  shows "set order = fst ` set nmap"
proof (cases "io = None \<or> io = Some []")
  case True
  with assms show ?thesis by (force simp: check_input_order_def)
next
  case False
  then obtain given where io: "io = Some given" "given \<noteq> []" by (cases io) auto
  from assms io have a: "find (\<lambda>name. map_of nmap name = None) given = None"
    and b: "find (\<lambda>name. name \<notin> set given) (name_keys H (map fst nmap)) = None"
    and c: "order = given"
    by (auto simp: check_input_order_def split: option.splits)
  from a have "\<forall>s\<in>set given. map_of nmap s \<noteq> None" by (auto simp: find_None_iff)
  then have 1: "set given \<subseteq> fst ` set nmap" by (auto simp: map_of_eq_None_iff)
  from b have "\<forall>s\<in>set (name_keys H (map fst nmap)). s \<in> set given"
    by (auto simp: find_None_iff)
  with host_ok_name_keys [OF assms(2)] have 2: "fst ` set nmap \<subseteq> set given" by auto
  from 1 2 c show ?thesis by auto
qed

subsection \<open>Assigning registers\<close>

lemma last_index_Some:
  "last_index xs x = Some j \<Longrightarrow> j < length xs \<and> xs ! j = x \<and> x \<notin> set (drop (Suc j) xs)"
proof (induction xs arbitrary: j)
  case Nil
  then show ?case by simp
next
  case (Cons y ys)
  show ?case
  proof (cases "last_index ys x")
    case None
    with Cons.prems have "y = x" "j = 0" by (auto split: if_splits)
    moreover from None have "x \<notin> set ys"
    proof (induction ys)
      case Nil
      show ?case by simp
    next
      case (Cons z zs)
      then show ?case by (auto split: option.splits if_splits)
    qed
    ultimately show ?thesis by simp
  next
    case (Some k)
    with Cons.prems have "j = Suc k" by simp
    with Cons.IH [OF Some] show ?thesis by simp
  qed
qed

lemma last_index_None: "last_index xs x = None \<longleftrightarrow> x \<notin> set xs"
  by (induction xs) (auto split: option.splits)

lemma last_index_map:
  "inj_on f (insert x (set xs)) \<Longrightarrow> last_index (map f xs) (f x) = last_index xs x"
proof (induction xs)
  case Nil
  show ?case by simp
next
  case (Cons y ys)
  then have "inj_on f (insert x (set ys))" and "f y = f x \<longleftrightarrow> y = x"
    by (auto simp: inj_on_def)
  with Cons.IH show ?case by simp
qed

lemma last_index_unique:
  "distinct xs \<Longrightarrow> j < length xs \<Longrightarrow> last_index xs (xs ! j) = Some j"
proof (induction xs arbitrary: j)
  case Nil
  then show ?case by simp
next
  case (Cons y ys)
  show ?case
  proof (cases j)
    case 0
    from Cons.prems have "last_index ys y = None" by (simp add: last_index_None)
    with 0 show ?thesis by simp
  next
    case (Suc k)
    with Cons.prems Cons.IH [of k] show ?thesis by simp
  qed
qed

lemma assign_generic:
  assumes B: "\<And>j x regs store. B (j, x) (regs, store) =
      (case f x of
         None \<Rightarrow> Inl KeyError
       | Some c \<Rightarrow> Inr (regs(c \<mapsto> length store), store @ [g j x]))"
    and defined: "\<forall>x\<in>set xs. f x \<noteq> None"
  shows "\<exists>regs'. foldE B (enumerate i xs) (regs, store) =
        Inr (regs', store @ map (\<lambda>(j, x). g j x) (enumerate i xs)) \<and>
      (\<forall>c. regs' c =
         (case last_index (map f xs) (Some c) of
            Some j \<Rightarrow> Some (length store + j)
          | None \<Rightarrow> regs c))"
  using defined
proof (induction xs arbitrary: i regs store)
  case Nil
  show ?case by simp
next
  case (Cons x xs)
  from Cons.prems obtain c where c: "f x = Some c" by auto
  from Cons.prems have "\<forall>x\<in>set xs. f x \<noteq> None" by simp
  from Cons.IH [OF this, of "Suc i" "regs(c \<mapsto> length store)" "store @ [g i x]"]
  obtain regs' where
    r: "foldE B (enumerate (Suc i) xs) (regs(c \<mapsto> length store), store @ [g i x]) =
        Inr (regs', (store @ [g i x]) @ map (\<lambda>(j, x). g j x) (enumerate (Suc i) xs))"
    and l: "\<forall>d. regs' d =
         (case last_index (map f xs) (Some d) of
            Some j \<Rightarrow> Some (length (store @ [g i x]) + j)
          | None \<Rightarrow> (regs(c \<mapsto> length store)) d)"
    by blast
  have "foldE B (enumerate i (x # xs)) (regs, store) =
      Inr (regs', store @ map (\<lambda>(j, x). g j x) (enumerate i (x # xs)))"
    using r c by (simp add: B)
  moreover have "regs' d =
      (case last_index (map f (x # xs)) (Some d) of
         Some j \<Rightarrow> Some (length store + j)
       | None \<Rightarrow> regs d)" for d
    using l c by (auto split: option.splits)
  ultimately show ?case by blast
qed

lemma assign_inputs:
  assumes "\<forall>s\<in>set order. map_of nmap s \<noteq> None"
  shows "\<exists>regs'. foldE (assign_input nmap) (enumerate 0 order) (regs, store) =
        Inr (regs', store @
          map (\<lambda>(j, s). Register_new (Some (j + 1)) (Some s) False False None)
            (enumerate 0 order)) \<and>
      (\<forall>c. regs' c =
         (case last_index (map (map_of nmap) order) (Some c) of
            Some j \<Rightarrow> Some (length store + j)
          | None \<Rightarrow> regs c))"
  by (rule assign_generic [OF _ assms]) (simp add: assign_input_def)

lemma assign_constants:
  assumes "\<forall>k\<in>set keys. lookup_value cmap k \<noteq> None"
  shows "\<exists>regs'. foldE (assign_constant cmap) (enumerate 0 keys) (regs, store) =
        Inr (regs', store @
          map (\<lambda>(p, k). Register_new (Some p) None False True (Some k)) (enumerate 0 keys)) \<and>
      (\<forall>c. regs' c =
         (case last_index (map (lookup_value cmap) keys) (Some c) of
            Some p \<Rightarrow> Some (length store + p)
          | None \<Rightarrow> regs c))"
  by (rule assign_generic [OF _ assms]) (simp add: assign_constant_def)

lemma assign_temporaries:
  "fold (assign_temporary nm) xs (regs, store) = (regs', store') \<Longrightarrow>
   store' = store @ replicate (length (filter is_OpNode xs))
                      (Register_new None None True False None) \<and>
   (\<forall>x. (\<forall>a\<in>set xs. is_OpNode a \<longrightarrow> node_map_get nm (node_id a) \<noteq> x) \<longrightarrow> regs' x = regs x) \<and>
   (\<forall>a\<in>set xs. is_OpNode a \<longrightarrow>
      (\<exists>r. regs' (node_map_get nm (node_id a)) = Some r \<and> length store \<le> r \<and> r < length store'))"
proof (induction xs arbitrary: regs store)
  case Nil
  then show ?case by simp
next
  case (Cons x xs)
  show ?case
  proof (cases x)
    case (OpNode a opc args)
    let ?k = "node_map_get nm a"
    let ?t = "Register_new None None True False None"
    from Cons.prems OpNode
    have f: "fold (assign_temporary nm) xs (regs(?k \<mapsto> length store), store @ [?t]) = (regs', store')"
      by simp
    note IH = Cons.IH [OF f]
    from IH have S: "store' = store @ replicate (length (filter is_OpNode (x # xs))) ?t"
      using OpNode by (simp add: replicate_append_same)
    have U: "regs' y = regs y"
      if "\<forall>a\<in>set (x # xs). is_OpNode a \<longrightarrow> node_map_get nm (node_id a) \<noteq> y" for y
    proof -
      from that OpNode have "?k \<noteq> y" by simp
      moreover from that have "\<forall>a\<in>set xs. is_OpNode a \<longrightarrow> node_map_get nm (node_id a) \<noteq> y"
        by simp
      ultimately show ?thesis using IH by simp
    qed
    have R: "\<exists>r. regs' (node_map_get nm (node_id b)) = Some r \<and> length store \<le> r \<and> r < length store'"
      if b: "b \<in> set (x # xs)" "is_OpNode b" for b
    proof (cases "\<exists>a\<in>set xs. is_OpNode a \<and> node_map_get nm (node_id a) = node_map_get nm (node_id b)")
      case True
      then obtain a where a: "a \<in> set xs" "is_OpNode a"
        "node_map_get nm (node_id a) = node_map_get nm (node_id b)" by blast
      with IH obtain r where "regs' (node_map_get nm (node_id a)) = Some r"
        "length (store @ [?t]) \<le> r" "r < length store'" by blast
      with a show ?thesis by auto
    next
      case False
      with b have bx: "b = x" by auto
      from False have "\<forall>a\<in>set xs. is_OpNode a \<longrightarrow> node_map_get nm (node_id a) \<noteq> ?k"
        using bx OpNode by auto
      with IH have "regs' ?k = (regs(?k \<mapsto> length store)) ?k" by blast
      then have "regs' ?k = Some (length store)" by simp
      moreover have "length store < length store'" using S OpNode by simp
      ultimately show ?thesis using bx OpNode by auto
    qed
    from S U R show ?thesis by blast
  next
    case (VariableNode a s)
    with Cons.prems have "fold (assign_temporary nm) xs (regs, store) = (regs', store')" by simp
    moreover have "\<not> is_OpNode x" using VariableNode by simp
    ultimately show ?thesis using Cons.IH [of regs store] by auto
  next
    case (ConstantNode a v)
    with Cons.prems have "fold (assign_temporary nm) xs (regs, store) = (regs', store')" by simp
    moreover have "\<not> is_OpNode x" using ConstantNode by simp
    ultimately show ?thesis using Cons.IH [of regs store] by auto
  qed
qed

subsection \<open>The reuse pass\<close>

lemma first_temporary_range:
  assumes "keyed W nm regs n m (length store)" "layout n m store" "set args \<subseteq> set W"
  shows "first_temporary nm regs store args = Inr None \<or>
     (\<exists>r. first_temporary nm regs store args = Inr (Some r) \<and> n \<le> r \<and> r < n + m)"
  using assms(3)
proof (induction args)
  case Nil
  show ?case by simp
next
  case (Cons arg args)
  then have "arg \<in> set W" by simp
  with assms(1) obtain r where r: "regs (node_map_get nm (node_id arg)) = Some r" "r < length store"
    unfolding keyed_def by blast
  show ?case
  proof (cases "reg_temporary (store ! r)")
    case True
    with assms(2) r have "n \<le> r \<and> r < n + m" unfolding layout_def by blast
    with r True show ?thesis by simp
  next
    case False
    with r Cons show ?thesis by simp
  qed
qed

lemma reuse_pass:
  assumes cl: "closed W" and sep: "separate W nm" and lay: "layout n m store"
    and sub: "set xs \<subseteq> set W"
    and key: "keyed W nm regs n m (length store)"
  shows "\<exists>regs'. foldE (reuse_temporary nm store) xs regs = Inr regs' \<and>
      keyed W nm regs' n m (length store) \<and>
      (\<forall>b\<in>set W. \<not> is_OpNode b \<longrightarrow>
         regs' (node_map_get nm (node_id b)) = regs (node_map_get nm (node_id b)))"
  using sub key
proof (induction xs arbitrary: regs)
  case Nil
  then show ?case by simp
next
  case (Cons x xs)
  from Cons.prems have xW: "x \<in> set W" and sub': "set xs \<subseteq> set W" by simp_all
  have "\<exists>regs1. reuse_temporary nm store x regs = Inr regs1 \<and>
      keyed W nm regs1 n m (length store) \<and>
      (\<forall>b\<in>set W. \<not> is_OpNode b \<longrightarrow>
         regs1 (node_map_get nm (node_id b)) = regs (node_map_get nm (node_id b)))"
  proof (cases x)
    case (OpNode a opc args)
    with xW cl have "set args \<subseteq> set W" unfolding closed_def by blast
    from first_temporary_range [OF Cons.prems(2) lay this]
    show ?thesis
    proof
      assume "first_temporary nm regs store args = Inr None"
      with OpNode Cons.prems(2) show ?thesis by simp
    next
      assume "\<exists>r. first_temporary nm regs store args = Inr (Some r) \<and> n \<le> r \<and> r < n + m"
      then obtain r where r: "first_temporary nm regs store args = Inr (Some r)"
        "n \<le> r" "r < n + m" by blast
      let ?k = "node_map_get nm a"
      let ?regs = "regs(?k \<mapsto> r)"
      from lay r have rN: "r < length store" unfolding layout_def by simp
      have k: "keyed W nm ?regs n m (length store)"
        unfolding keyed_def
      proof
        fix b assume b: "b \<in> set W"
        show "\<exists>q. ?regs (node_map_get nm (node_id b)) = Some q \<and> q < length store \<and>
            (is_OpNode b \<longleftrightarrow> n \<le> q \<and> q < n + m)"
        proof (cases "node_map_get nm (node_id b) = ?k")
          case True
          have "is_OpNode b"
          proof (rule ccontr)
            assume "\<not> is_OpNode b"
            with sep xW b OpNode have "node_map_get nm (node_id x) \<noteq> node_map_get nm (node_id b)"
              unfolding separate_def by (metis is_OpNode.simps(1))
            with True OpNode show False by simp
          qed
          with True r rN show ?thesis by simp
        next
          case False
          with Cons.prems(2) b show ?thesis unfolding keyed_def by simp
        qed
      qed
      have u: "\<forall>b\<in>set W. \<not> is_OpNode b \<longrightarrow>
          ?regs (node_map_get nm (node_id b)) = regs (node_map_get nm (node_id b))"
      proof (intro ballI impI)
        fix b assume b: "b \<in> set W" "\<not> is_OpNode b"
        with sep xW OpNode have "node_map_get nm (node_id x) \<noteq> node_map_get nm (node_id b)"
          unfolding separate_def by (metis is_OpNode.simps(1))
        with OpNode show "?regs (node_map_get nm (node_id b)) = regs (node_map_get nm (node_id b))"
          by simp
      qed
      from r OpNode k u show ?thesis by simp
    qed
  next
    case (VariableNode a s)
    with Cons.prems(2) show ?thesis by simp
  next
    case (ConstantNode a v)
    with Cons.prems(2) show ?thesis by simp
  qed
  then obtain regs1 where 1: "reuse_temporary nm store x regs = Inr regs1"
    "keyed W nm regs1 n m (length store)"
    "\<forall>b\<in>set W. \<not> is_OpNode b \<longrightarrow>
       regs1 (node_map_get nm (node_id b)) = regs (node_map_get nm (node_id b))"
    by blast
  from Cons.IH [OF sub' 1(2)] obtain regs' where 2:
    "foldE (reuse_temporary nm store) xs regs1 = Inr regs'"
    "keyed W nm regs' n m (length store)"
    "\<forall>b\<in>set W. \<not> is_OpNode b \<longrightarrow>
       regs' (node_map_get nm (node_id b)) = regs1 (node_map_get nm (node_id b))"
    by blast
  from 1 2 show ?case by simp
qed

subsection \<open>Emission\<close>

lemma unnumbered_not_output: "\<not> is_output unnumbered"
  by (simp add: is_output_def unnumbered_def Register_new_def)

lemma unnumbered_not_temporary: "\<not> is_temporary n unnumbered"
  by (simp add: is_temporary_def unnumbered_def Register_new_def)

lemma unnumbered_temporary: "reg_temporary unnumbered"
  by (simp add: unnumbered_def Register_new_def)

lemma numbering:
  "n < k \<Longrightarrow> is_temporary n (unnumbered\<lparr>reg_n := Some k\<rparr>)"
  by (simp add: is_temporary_def unnumbered_def Register_new_def)

lemma is_output_not_temporary: "is_output r \<Longrightarrow> \<not> reg_temporary r"
  by (simp add: is_output_def Register_new_def)

lemma is_temporary_temporary: "is_temporary n r \<Longrightarrow> reg_temporary r"
  by (auto simp: is_temporary_def Register_new_def split: option.splits)

lemma reg_step:
  assumes key: "keyed W nm regs n m (length store0)"
    and em: "emitting n m store0 (store, seen)"
    and a: "a \<in> set W"
  shows "\<exists>r store' seen'.
      reg n nm regs a (store, seen) = Inr (r, store', seen') \<and>
      regs (node_map_get nm (node_id a)) = Some r \<and>
      emitting n m store0 (store', seen') \<and>
      settled store' r \<and>
      (\<forall>q. settled store q \<longrightarrow> settled store' q)"
proof -
  from key a obtain r where r: "regs (node_map_get nm (node_id a)) = Some r"
    "r < length store0" unfolding keyed_def by blast
  from em have len: "length store = length store0"
    and out: "\<forall>q<length store. \<not> (n \<le> q \<and> q < n + m) \<longrightarrow>
        store ! q = store0 ! q \<and> \<not> reg_temporary (store ! q)"
    and tmp: "\<forall>q. n \<le> q \<and> q < n + m \<longrightarrow>
        is_output (store ! q) \<or> (store ! q = unnumbered \<and> q \<notin> set seen) \<or>
        (is_temporary n (store ! q) \<and> q \<in> set seen)"
    and keep: "\<forall>q<length store. is_output (store0 ! q) \<longrightarrow> is_output (store ! q)"
    unfolding emitting_def by auto
  show ?thesis
  proof (cases "r \<notin> set seen \<and> reg_temporary (store ! r)")
    case True
    have range: "n \<le> r \<and> r < n + m"
      using out r len True by auto
    with tmp True have un: "store ! r = unnumbered"
      using is_output_not_temporary by blast
    let ?k = "1 + n + length seen"
    let ?store = "store[r := (store ! r)\<lparr>reg_n := Some ?k\<rparr>]"
    have res: "reg n nm regs a (store, seen) = Inr (r, ?store, seen @ [r])"
      using r True by (simp add: reg_def)
    have new: "is_temporary n (?store ! r)"
      using r len un numbering [of n ?k] by simp
    have em': "emitting n m store0 (?store, seen @ [r])"
      unfolding emitting_def
    proof (simp only: prod.case, intro conjI allI impI)
      show "length ?store = length store0" using len by simp
    next
      fix q assume "q < length ?store" "\<not> (n \<le> q \<and> q < n + m)"
      with range out have "q \<noteq> r" "store ! q = store0 ! q" "\<not> reg_temporary (store ! q)"
        by auto
      then show "?store ! q = store0 ! q" "\<not> reg_temporary (?store ! q)" by simp_all
    next
      fix q assume q: "n \<le> q \<and> q < n + m"
      show "is_output (?store ! q) \<or> (?store ! q = unnumbered \<and> q \<notin> set (seen @ [r])) \<or>
          (is_temporary n (?store ! q) \<and> q \<in> set (seen @ [r]))"
      proof (cases "q = r")
        case True
        with new show ?thesis by simp
      next
        case False
        with tmp q show ?thesis by auto
      qed
    next
      fix q assume q: "q < length ?store" "is_output (store0 ! q)"
      with keep have o: "is_output (store ! q)" by simp
      with un unnumbered_not_output have "q \<noteq> r" by auto
      with o show "is_output (?store ! q)" by simp
    qed
    have s: "settled ?store r"
      using new unnumbered_not_temporary [of n] r len unfolding settled_def by auto
    have mono: "settled ?store q" if "settled store q" for q
    proof (cases "q = r")
      case True
      with s show ?thesis by simp
    next
      case False
      with that show ?thesis unfolding settled_def by simp
    qed
    from res r em' s mono show ?thesis by blast
  next
    case False
    have res: "reg n nm regs a (store, seen) = Inr (r, store, seen)"
      using r False by (auto simp: reg_def)
    have "store ! r \<noteq> unnumbered"
    proof (cases "n \<le> r \<and> r < n + m")
      case True
      with tmp False show ?thesis
        using unnumbered_not_output unnumbered_not_temporary unnumbered_temporary by metis
    next
      case False
      with out r len show ?thesis using unnumbered_temporary by metis
    qed
    with r len have "settled store r" unfolding settled_def by simp
    with res r em show ?thesis by blast
  qed
qed

lemma entry_settled_mono:
  "entry_settled store e \<Longrightarrow> (\<forall>q. settled store q \<longrightarrow> settled store' q) \<Longrightarrow>
   entry_settled store' e"
  by (cases e) (auto split: option.splits)

lemma emit_step:
  assumes key: "keyed W nm regs n m (length store0)"
    and cl: "closed W"
    and em: "emitting n m store0 (store, seen)"
    and x: "OpNode i opc args \<in> set W"
  shows "\<exists>e store' seen'.
      emit n nm regs (OpNode i opc args) (prog, store, seen) = Inr (prog @ [e], store', seen') \<and>
      entry_for nm regs (OpNode i opc args) e \<and>
      emitting n m store0 (store', seen') \<and>
      entry_settled store' e \<and>
      (\<forall>q. settled store q \<longrightarrow> settled store' q)"
proof -
  from cl x obtain b1 rest where args: "args = b1 # rest" and sub: "set args \<subseteq> set W"
    unfolding closed_def by (cases args) blast+
  from reg_step [OF key em x] obtain d st1 se1 where
    1: "reg n nm regs (OpNode i opc args) (store, seen) = Inr (d, st1, se1)"
    "regs (node_map_get nm i) = Some d" "emitting n m store0 (st1, se1)"
    "settled st1 d" "\<forall>q. settled store q \<longrightarrow> settled st1 q"
    by auto
  from sub args have b1: "b1 \<in> set W" by simp
  from reg_step [OF key 1(3) b1] obtain r1 st2 se2 where
    2: "reg n nm regs b1 (st1, se1) = Inr (r1, st2, se2)"
    "regs (node_map_get nm (node_id b1)) = Some r1" "emitting n m store0 (st2, se2)"
    "settled st2 r1" "\<forall>q. settled st1 q \<longrightarrow> settled st2 q"
    by auto
  show ?thesis
  proof (cases rest)
    case Nil
    let ?e = "(opc, d, r1, None)"
    have "emit n nm regs (OpNode i opc args) (prog, store, seen) = Inr (prog @ [?e], st2, se2)"
      using 1 2 args Nil by simp
    moreover have "entry_for nm regs (OpNode i opc args) ?e"
      using 1 2 args Nil by simp
    moreover have "entry_settled st2 ?e"
      using 1 2 by simp
    moreover have "\<forall>q. settled store q \<longrightarrow> settled st2 q"
      using 1 2 by blast
    ultimately show ?thesis using 2(3) by blast
  next
    case (Cons b2 others)
    with sub args have b2: "b2 \<in> set W" by simp
    from reg_step [OF key 2(3) b2] obtain r2 st3 se3 where
      3: "reg n nm regs b2 (st2, se2) = Inr (r2, st3, se3)"
      "regs (node_map_get nm (node_id b2)) = Some r2" "emitting n m store0 (st3, se3)"
      "settled st3 r2" "\<forall>q. settled st2 q \<longrightarrow> settled st3 q"
      by auto
    let ?e = "(opc, d, r1, Some r2)"
    have "emit n nm regs (OpNode i opc args) (prog, store, seen) = Inr (prog @ [?e], st3, se3)"
      using 1 2 3 args Cons by simp
    moreover have "entry_for nm regs (OpNode i opc args) ?e"
      using 1 2 3 args Cons by simp
    moreover have "entry_settled st3 ?e"
      using 1 2 3 by simp
    moreover have "\<forall>q. settled store q \<longrightarrow> settled st3 q"
      using 1 2 3 by blast
    ultimately show ?thesis using 3(3) by blast
  qed
qed

lemma emit_loop:
  assumes key: "keyed W nm regs n m (length store0)"
    and cl: "closed W"
    and sub: "set xs \<subseteq> set W"
    and em: "emitting n m store0 (store, seen)"
    and old: "\<forall>e\<in>set prog. entry_settled store e"
  shows "\<exists>prog' store' seen'.
      foldE (emit n nm regs) xs (prog, store, seen) = Inr (prog @ prog', store', seen') \<and>
      list_all2 (entry_for nm regs) (filter is_OpNode xs) prog' \<and>
      emitting n m store0 (store', seen') \<and>
      (\<forall>e\<in>set (prog @ prog'). entry_settled store' e)"
  using sub em old
proof (induction xs arbitrary: prog store seen)
  case Nil
  then show ?case by simp
next
  case (Cons x xs)
  from Cons.prems have xW: "x \<in> set W" and sub': "set xs \<subseteq> set W" by simp_all
  show ?case
  proof (cases x)
    case (OpNode i opc args)
    from emit_step [OF key cl Cons.prems(2) xW [unfolded OpNode], of prog]
    obtain e st1 se1 where
      1: "emit n nm regs x (prog, store, seen) = Inr (prog @ [e], st1, se1)"
      "entry_for nm regs x e" "emitting n m store0 (st1, se1)" "entry_settled st1 e"
      "\<forall>q. settled store q \<longrightarrow> settled st1 q"
      unfolding OpNode by blast
    have old1: "\<forall>e'\<in>set (prog @ [e]). entry_settled st1 e'"
      using Cons.prems(3) 1(4,5) entry_settled_mono by auto
    from Cons.IH [OF sub' 1(3) old1] obtain prog' st2 se2 where
      2: "foldE (emit n nm regs) xs (prog @ [e], st1, se1) = Inr ((prog @ [e]) @ prog', st2, se2)"
      "list_all2 (entry_for nm regs) (filter is_OpNode xs) prog'"
      "emitting n m store0 (st2, se2)"
      "\<forall>e'\<in>set ((prog @ [e]) @ prog'). entry_settled st2 e'"
      by blast
    have "foldE (emit n nm regs) (x # xs) (prog, store, seen) = Inr (prog @ (e # prog'), st2, se2)"
      using 1 2 by simp
    moreover have "list_all2 (entry_for nm regs) (filter is_OpNode (x # xs)) (e # prog')"
      using 1 2 OpNode by simp
    moreover have "\<forall>e'\<in>set (prog @ (e # prog')). entry_settled st2 e'"
      using 2(4) by simp
    ultimately show ?thesis using 2(3) by blast
  next
    case (VariableNode i s)
    with Cons.IH [OF sub' Cons.prems(2,3)] show ?thesis by simp
  next
    case (ConstantNode i v)
    with Cons.IH [OF sub' Cons.prems(2,3)] show ?thesis by simp
  qed
qed

subsection \<open>The state after the registers are assigned\<close>

lemma nth_enumerate_map:
  "j < length xs \<Longrightarrow> map (\<lambda>(j, x). g j x) (enumerate 0 xs) ! j = g j (xs ! j)"
  by (simp add: nth_enumerate_eq)

lemma assignment:
  fixes W :: "node list" and order :: "string list"
  defines "n \<equiv> length order" and "m \<equiv> length (filter is_OpNode W)"
  assumes wf: "\<forall>a\<in>set W. \<forall>b\<in>set W. node_id a = node_id b \<longrightarrow> a = b"
    and V: "fold canonicalize_variable W ([], Map.empty) = (nmap, nm0)"
    and C: "fold canonicalize_constant W ([], nm0) = (cmap, nm)"
    and ord: "set order = fst ` set nmap"
    and keys: "mset keys = mset (map fst cmap)"
  shows "\<exists>st1 regs0 store0.
      foldE (assign_input nmap) (enumerate 0 order) (Map.empty, []) = Inr st1 \<and>
      foldE (assign_constant cmap) (enumerate 0 keys) (fold (assign_temporary nm) W st1) =
        Inr (regs0, store0) \<and>
      layout n m store0 \<and> length store0 = n + m + length keys \<and>
      keyed W nm regs0 n m (length store0) \<and> separate W nm \<and>
      var_assigned order nm regs0 store0 W \<and>
      const_assigned keys (n + m) nm regs0 store0 W \<and>
      (\<forall>i opc args. OpNode i opc args \<in> set W \<longrightarrow> node_map_get nm i = i)"
proof -
  note Vf = canonicalize_variables [OF V]
  note Cf = canonicalize_constants [OF C]
  from Cf have Cf1: "map (to_float \<circ> fst) cmap =
      first_seen (map to_float [v. ConstantNode i v \<leftarrow> W])"
    by (rule conjunct1)
  \<comment> \<open>the keys of the three kinds of nodes\<close>
  have var_key: "\<exists>c. nm i = Some c \<and> map_of nmap s = Some c \<and> VariableNode c s \<in> set W"
    if v: "VariableNode i s \<in> set W" for i s
  proof -
    from Vf wf v have a: "nm0 i = map_of nmap s" "nm0 i \<noteq> None" by blast+
    then obtain c where c: "nm0 i = Some c" "map_of nmap s = Some c" by auto
    then have "(s, c) \<in> set nmap" by (simp add: map_of_SomeD)
    with Vf have cW: "VariableNode c s \<in> set W" by blast
    have "\<forall>w. ConstantNode i w \<notin> set W"
    proof (intro allI notI)
      fix w assume "ConstantNode i w \<in> set W"
      with wf v have "ConstantNode i w = VariableNode i s"
        by (metis node_id.simps(1) node_id.simps(2))
      then show False by simp
    qed
    with Cf have "nm i = nm0 i" by blast
    with c cW show ?thesis by simp
  qed
  have const_key: "\<exists>c k. nm i = Some c \<and> lookup_value cmap v = Some c \<and> (k, c) \<in> set cmap \<and>
      py_eq k v \<and> ConstantNode c k \<in> set W"
    if v: "ConstantNode i v \<in> set W" for i v
  proof -
    from Cf wf v have a: "nm i = lookup_value cmap v" "nm i \<noteq> None" by blast+
    then obtain c where c: "nm i = Some c" "lookup_value cmap v = Some c" by auto
    from lookup_value_Some [OF c(2)] obtain k where k: "(k, c) \<in> set cmap" "py_eq k v" by blast
    with Cf have "ConstantNode c k \<in> set W" by blast
    with c k show ?thesis by blast
  qed
  have op_key: "node_map_get nm i = i" if v: "OpNode i opc args \<in> set W" for i opc args
  proof -
    have "\<forall>w. ConstantNode i w \<notin> set W"
    proof (intro allI notI)
      fix w assume "ConstantNode i w \<in> set W"
      with wf v have "ConstantNode i w = OpNode i opc args"
        by (metis node_id.simps(2) node_id.simps(3))
      then show False by simp
    qed
    with Cf have 1: "nm i = nm0 i" by blast
    have "\<forall>s. VariableNode i s \<notin> set W"
    proof (intro allI notI)
      fix s assume "VariableNode i s \<in> set W"
      with wf v have "VariableNode i s = OpNode i opc args"
        by (metis node_id.simps(1) node_id.simps(3))
      then show False by simp
    qed
    with Vf have "i \<notin> dom nm0" by blast
    then have "nm0 i = None" by (simp add: domIff)
    with 1 show ?thesis by (simp add: node_map_get_def)
  qed
  \<comment> \<open>an identity belongs to one kind of node\<close>
  have var_not_op: "c \<noteq> i" if "VariableNode c s \<in> set W" "OpNode i opc args \<in> set W"
    for c s i opc args
    using wf that by (metis node.distinct(3) node_id.simps(1) node_id.simps(3))
  have const_not_op: "c \<noteq> i" if "ConstantNode c k \<in> set W" "OpNode i opc args \<in> set W"
    for c k i opc args
    using wf that by (metis node.distinct(5) node_id.simps(2) node_id.simps(3))
  have var_not_const: "c \<noteq> d" if "VariableNode c s \<in> set W" "ConstantNode d k \<in> set W"
    for c s d k
    using wf that by (metis node.distinct(1) node_id.simps(1) node_id.simps(2))
  have sep: "separate W nm"
    unfolding separate_def
  proof (intro ballI impI)
    fix a b assume a: "a \<in> set W" and b: "b \<in> set W" and ab: "is_OpNode a \<and> \<not> is_OpNode b"
    from ab obtain i opc args where A: "a = OpNode i opc args" by (cases a) auto
    with a op_key have ka: "node_map_get nm (node_id a) = i" by simp
    show "node_map_get nm (node_id a) \<noteq> node_map_get nm (node_id b)"
    proof (cases b)
      case (VariableNode j s)
      with b var_key obtain c where "nm j = Some c" "VariableNode c s \<in> set W" by blast
      with var_not_op [of c s i opc args] a A VariableNode ka show ?thesis
        by (auto simp: node_map_get_def)
    next
      case (ConstantNode j v)
      with b const_key obtain c k where "nm j = Some c" "ConstantNode c k \<in> set W" by blast
      with const_not_op [of c k i opc args] a A ConstantNode ka show ?thesis
        by (auto simp: node_map_get_def)
    next
      case (OpNode j opc' args')
      with ab show ?thesis by simp
    qed
  qed
  \<comment> \<open>the input registers\<close>
  have names: "\<forall>s\<in>set order. map_of nmap s \<noteq> None"
    using ord by (auto simp: map_of_eq_None_iff)
  let ?inreg = "\<lambda>(j, s). Register_new (Some (j + 1)) (Some s) False False None"
  let ?sin = "map ?inreg (enumerate 0 order)"
  from assign_inputs [OF names, of Map.empty "[]"] obtain regs1 where
    in1': "foldE (assign_input nmap) (enumerate 0 order) (Map.empty, []) = Inr (regs1, [] @ ?sin)"
    and in2': "\<forall>c. regs1 c =
        (case last_index (map (map_of nmap) order) (Some c) of
           Some j \<Rightarrow> Some (length ([] :: Register list) + j) | None \<Rightarrow> Map.empty c)"
    by blast
  from in1' have
    in1: "foldE (assign_input nmap) (enumerate 0 order) (Map.empty, []) = Inr (regs1, ?sin)"
    by simp
  from in2' have in2: "\<forall>c. regs1 c =
        (case last_index (map (map_of nmap) order) (Some c) of
           Some j \<Rightarrow> Some j | None \<Rightarrow> None)"
    by (simp split: option.splits)
  have lsin: "length ?sin = n" by (simp add: n_def)
  \<comment> \<open>the temporaries\<close>
  obtain regs2 store2 where t: "fold (assign_temporary nm) W (regs1, ?sin) = (regs2, store2)"
    by (cases "fold (assign_temporary nm) W (regs1, ?sin)") auto
  note Tf = assign_temporaries [OF t]
  from Tf have Tf2: "\<forall>x. (\<forall>a\<in>set W. is_OpNode a \<longrightarrow> node_map_get nm (node_id a) \<noteq> x) \<longrightarrow>
      regs2 x = regs1 x"
    by (elim conjE)
  from Tf have Tf3: "\<forall>a\<in>set W. is_OpNode a \<longrightarrow>
      (\<exists>r. regs2 (node_map_get nm (node_id a)) = Some r \<and> length ?sin \<le> r \<and> r < length store2)"
    by (elim conjE)
  let ?tmp = "Register_new None None True False None"
  have s2: "store2 = ?sin @ replicate m ?tmp" using Tf by (simp add: m_def)
  \<comment> \<open>the constants\<close>
  have dcm: "distinct (map (to_float \<circ> fst) cmap)"
    by (simp only: Cf1 distinct_first_seen)
  then have "distinct (map to_float (map fst cmap))"
    by simp
  then have dk0: "distinct (map fst cmap)"
    using distinct_map [of to_float "map fst cmap"] by blast
  with keys have dk: "distinct keys" by (metis mset_eq_imp_distinct_iff)
  from keys have sk: "set keys = fst ` set cmap" by (metis set_map set_mset_mset)
  have look: "lookup_value cmap k = Some c" if "(k, c) \<in> set cmap" for k c
    using lookup_value_key [OF dcm that] .
  have defined: "\<forall>k\<in>set keys. lookup_value cmap k \<noteq> None"
    using sk look by force
  let ?creg = "\<lambda>(p, k). Register_new (Some p) None False True (Some k)"
  let ?sc = "map ?creg (enumerate 0 keys)"
  from assign_constants [OF defined, of regs2 store2] obtain regs0 where
    c1: "foldE (assign_constant cmap) (enumerate 0 keys) (regs2, store2) = Inr (regs0, store2 @ ?sc)"
    and c2: "\<forall>c. regs0 c =
        (case last_index (map (lookup_value cmap) keys) (Some c) of
           Some p \<Rightarrow> Some (length store2 + p) | None \<Rightarrow> regs2 c)"
    by blast
  let ?store0 = "store2 @ ?sc"
  have l2: "length store2 = n + m" using s2 lsin by simp
  have l0: "length ?store0 = n + m + length keys" using l2 by simp
  \<comment> \<open>the store\<close>
  have at_in: "?store0 ! j = Register_new (Some (Suc j)) (Some (order ! j)) False False None"
    if "j < n" for j
  proof -
    from that have "?store0 ! j = ?sin ! j" using s2 lsin by (simp add: nth_append)
    also have "\<dots> = Register_new (Some (Suc j)) (Some (order ! j)) False False None"
      using that nth_enumerate_map [of j order "\<lambda>j s. Register_new (Some (j + 1)) (Some s) False False None"]
      by (simp add: n_def)
    finally show ?thesis .
  qed
  have at_tmp: "?store0 ! r = unnumbered" if "n \<le> r" "r < n + m" for r
    using that s2 lsin l2 by (simp add: nth_append unnumbered_def)
  have at_const: "?store0 ! (n + m + p) = Register_new (Some p) None False True (Some (keys ! p))"
    if "p < length keys" for p
  proof -
    have "?store0 ! (n + m + p) = ?sc ! p" using l2 by (simp add: nth_append)
    also have "\<dots> = Register_new (Some p) None False True (Some (keys ! p))"
      using that nth_enumerate_map [of p keys "\<lambda>p k. Register_new (Some p) None False True (Some k)"]
      by simp
    finally show ?thesis .
  qed
  have lay: "layout n m ?store0"
    unfolding layout_def
  proof (intro conjI allI impI)
    show "n + m \<le> length ?store0" using l0 by simp
  next
    fix r assume r: "r < length ?store0" and t: "reg_temporary (?store0 ! r)"
    show "n \<le> r"
    proof (rule ccontr)
      assume "\<not> n \<le> r"
      then have "r < n" by simp
      from at_in [OF this] t show False by (simp add: Register_new_def)
    qed
    show "r < n + m"
    proof (rule ccontr)
      assume "\<not> r < n + m"
      then obtain p where p: "r = n + m + p" by (metis le_Suc_ex not_less)
      with r l0 have "p < length keys" by simp
      from at_const [OF this] t p show False by (simp add: Register_new_def)
    qed
  next
    fix r assume "n \<le> r \<and> r < n + m"
    then show "?store0 ! r = unnumbered" using at_tmp by simp
  qed
  \<comment> \<open>a canonical constant is no key of the earlier loops\<close>
  have no_const: "last_index (map (lookup_value cmap) keys) (Some x) = None"
    if "\<forall>c k. ConstantNode c k \<in> set W \<longrightarrow> c \<noteq> x" for x
  proof -
    have "Some x \<notin> set (map (lookup_value cmap) keys)"
    proof
      assume "Some x \<in> set (map (lookup_value cmap) keys)"
      then obtain k where "lookup_value cmap k = Some x" by auto
      from lookup_value_Some [OF this] obtain k' where "(k', x) \<in> set cmap" by blast
      with Cf have "ConstantNode x k' \<in> set W" by blast
      with that show False by blast
    qed
    then show ?thesis by (simp add: last_index_None)
  qed
  \<comment> \<open>operations\<close>
  have op_reg: "\<exists>r. regs0 i = Some r \<and> n \<le> r \<and> r < n + m"
    if v: "OpNode i opc args \<in> set W" for i opc args
  proof -
    from const_not_op v have "last_index (map (lookup_value cmap) keys) (Some i) = None"
      by (intro no_const) blast
    with c2 have "regs0 i = regs2 i" by simp
    moreover from Tf3 [rule_format, OF v] op_key [OF v]
    have "\<exists>r. regs2 i = Some r \<and> length ?sin \<le> r \<and> r < length store2"
      by simp
    ultimately show ?thesis using lsin l2 by simp
  qed
  \<comment> \<open>variables\<close>
  have inj_names: "inj_on (map_of nmap) (fst ` set nmap)"
  proof (rule inj_onI)
    fix s1 s2 assume s: "s1 \<in> fst ` set nmap" "s2 \<in> fst ` set nmap"
      and e: "map_of nmap s1 = map_of nmap s2"
    from s(1) obtain c where c: "map_of nmap s1 = Some c"
      by (metis map_of_eq_None_iff not_None_eq)
    with e have "(s1, c) \<in> set nmap" "(s2, c) \<in> set nmap" by (simp_all add: map_of_SomeD)
    with Vf have "VariableNode c s1 \<in> set W" "VariableNode c s2 \<in> set W" by blast+
    with wf show "s1 = s2" by (metis node.inject(1) node_id.simps(1))
  qed
  have var_reg: "\<exists>j. regs0 (node_map_get nm i) = Some j \<and> last_index order s = Some j \<and>
      j < length order \<and> ?store0 ! j = Register_new (Some (Suc j)) (Some s) False False None"
    if v: "VariableNode i s \<in> set W" for i s
  proof -
    from var_key [OF v] obtain c where c: "nm i = Some c" "map_of nmap s = Some c"
      "VariableNode c s \<in> set W" by blast
    then have k: "node_map_get nm i = c" by (simp add: node_map_get_def)
    from c(2) have sn: "s \<in> fst ` set nmap" by (metis map_of_eq_None_iff option.distinct(1))
    with ord have so: "s \<in> set order" by simp
    then obtain j where j: "last_index order s = Some j"
      by (metis last_index_None not_None_eq)
    from last_index_Some [OF j] have jn: "j < length order" "order ! j = s" by simp_all
    have "inj_on (map_of nmap) (insert s (set order))"
      using inj_names ord sn by (simp add: insert_absorb)
    from last_index_map [OF this] j c(2)
    have "last_index (map (map_of nmap) order) (Some c) = Some j" by simp
    with in2 have r1: "regs1 c = Some j" by simp
    have "\<forall>a\<in>set W. is_OpNode a \<longrightarrow> node_map_get nm (node_id a) \<noteq> c"
    proof (intro ballI impI)
      fix a assume a: "a \<in> set W" "is_OpNode a"
      from a(2) obtain i' opc args where A: "a = OpNode i' opc args" by (cases a) auto
      with a op_key have "node_map_get nm (node_id a) = i'" by simp
      with var_not_op [OF c(3)] a A show "node_map_get nm (node_id a) \<noteq> c" by blast
    qed
    with Tf2 have r2: "regs2 c = regs1 c" by blast
    from var_not_const [OF c(3)] have "last_index (map (lookup_value cmap) keys) (Some c) = None"
      by (intro no_const) blast
    with c2 r2 r1 have "regs0 c = Some j" by simp
    with k j jn at_in [of j] show ?thesis by (auto simp: n_def)
  qed
  \<comment> \<open>constants\<close>
  have inj_keys: "inj_on (lookup_value cmap) (fst ` set cmap)"
  proof (rule inj_onI)
    fix k1 k2 assume s: "k1 \<in> fst ` set cmap" "k2 \<in> fst ` set cmap"
      and e: "lookup_value cmap k1 = lookup_value cmap k2"
    from s obtain c1 c2 where c: "(k1, c1) \<in> set cmap" "(k2, c2) \<in> set cmap" by auto
    with look e have "c1 = c2" by simp
    with c Cf have "ConstantNode c1 k1 \<in> set W" "ConstantNode c1 k2 \<in> set W" by blast+
    with wf show "k1 = k2" by (metis node.inject(2) node_id.simps(2))
  qed
  have const_reg: "\<exists>p. regs0 (node_map_get nm i) = Some (n + m + p) \<and> p < length keys \<and>
      py_eq (keys ! p) v \<and>
      ?store0 ! (n + m + p) = Register_new (Some p) None False True (Some (keys ! p))"
    if v: "ConstantNode i v \<in> set W" for i v
  proof -
    from const_key [OF v] obtain c k where c: "nm i = Some c" "lookup_value cmap v = Some c"
      "(k, c) \<in> set cmap" "py_eq k v" "ConstantNode c k \<in> set W" by blast
    then have kk: "node_map_get nm i = c" by (simp add: node_map_get_def)
    from c(3) sk have "k \<in> set keys" by force
    then obtain p where p: "p < length keys" "keys ! p = k" by (metis in_set_conv_nth)
    from last_index_unique [OF dk p(1)] p have li: "last_index keys k = Some p" by simp
    have "inj_on (lookup_value cmap) (insert k (set keys))"
      using inj_keys sk \<open>k \<in> set keys\<close> by (simp add: insert_absorb)
    from last_index_map [OF this] li look [OF c(3)]
    have "last_index (map (lookup_value cmap) keys) (Some c) = Some p" by simp
    with c2 l2 have "regs0 c = Some (n + m + p)" by simp
    with kk p c(4) at_const [OF p(1)] show ?thesis by auto
  qed
  have key: "keyed W nm regs0 n m (length ?store0)"
    unfolding keyed_def
  proof
    fix a assume a: "a \<in> set W"
    show "\<exists>r. regs0 (node_map_get nm (node_id a)) = Some r \<and> r < length ?store0 \<and>
        (is_OpNode a \<longleftrightarrow> n \<le> r \<and> r < n + m)"
    proof (cases a)
      case (VariableNode i s)
      with a var_reg obtain j where "regs0 (node_map_get nm i) = Some j" "j < length order"
        by blast
      with VariableNode l0 show ?thesis by (auto simp: n_def)
    next
      case (ConstantNode i v)
      with a const_reg obtain p where "regs0 (node_map_get nm i) = Some (n + m + p)"
        "p < length keys" by blast
      with ConstantNode l0 show ?thesis by auto
    next
      case (OpNode i opc args)
      with a have aW: "OpNode i opc args \<in> set W" by simp
      from op_reg [OF aW] op_key [OF aW]
      obtain r where "regs0 (node_map_get nm i) = Some r" "n \<le> r" "r < n + m"
        by auto
      with OpNode l0 show ?thesis by auto
    qed
  qed
  have va: "var_assigned order nm regs0 ?store0 W"
    unfolding var_assigned_def using var_reg by blast
  have ca: "const_assigned keys (n + m) nm regs0 ?store0 W"
    unfolding const_assigned_def using const_reg by blast
  from in1 t c1 lay l0 key sep va ca op_key show ?thesis
    by (intro exI [of _ "(regs1, ?sin)"] exI [of _ regs0] exI [of _ ?store0]) simp
qed

subsection \<open>The compiled program\<close>

lemma walk_last: "walk a \<noteq> [] \<and> last (walk a) = a"
  by (cases a) simp_all

lemma last_filter_walk: "is_OpNode a \<Longrightarrow> filter is_OpNode (walk a) \<noteq> [] \<and> last (filter is_OpNode (walk a)) = a"
  by (cases a) simp_all

lemma list_all2_last:
  "list_all2 P xs ys \<Longrightarrow> xs \<noteq> [] \<Longrightarrow> P (last xs) (last ys)"
  by (induction rule: list_all2_induct) (auto simp: list_all2_Nil)

lemma const_keys_eq:
  "fold canonicalize_constant (walk ex) ([], nm0) = (cmap, nm) \<Longrightarrow> const_keys ex = map fst cmap"
  unfolding const_keys_def
  using fold_canonicalize_constant_fst [of "walk ex" "[]" Map.empty nm0] by simp

lemma numexpr_node_compiles:
  assumes op: "is_OpNode ex" and wf: "well_formed ex" and H: "host_ok H"
    and chk: "check_input_order H (fst (fold canonicalize_variable (walk ex) ([], Map.empty))) io
      = Inr order"
  shows "\<exists>prog n_temps.
      numexpr_node H ex io True = Inr (Precompiled prog) \<and>
      numexpr_node H ex io False =
        (case foldE (join_string H) prog [] of
           Inl e \<Rightarrow> Inl e
         | Inr s \<Rightarrow>
             Inr (Compiled
               \<lparr>nex_n_inputs = length order, nex_n_temps = n_temps, nex_program = s,
                nex_constants = map to_float (value_keys H (const_keys ex)),
                nex_input_names = order\<rparr>)) \<and>
      list_all2 (instr_ok order (value_keys H (const_keys ex))) (filter is_OpNode (walk ex)) prog \<and>
      is_output (fst (snd (last prog)))"
proof -
  define W where "W = walk ex"
  define n where "n = length order"
  define m where "m = length (filter is_OpNode W)"
  obtain nmap nm0 where V: "fold canonicalize_variable W ([], Map.empty) = (nmap, nm0)"
    by (cases "fold canonicalize_variable W ([], Map.empty)") auto
  obtain cmap nm where C: "fold canonicalize_constant W ([], nm0) = (cmap, nm)"
    by (cases "fold canonicalize_constant W ([], nm0)") auto
  define keys where "keys = value_keys H (map fst cmap)"
  have ck: "const_keys ex = map fst cmap"
    using const_keys_eq C unfolding W_def by blast
  from chk V have chk': "check_input_order H nmap io = Inr order" by (simp add: W_def)
  from wf have wfW: "\<forall>a\<in>set W. \<forall>b\<in>set W. node_id a = node_id b \<longrightarrow> a = b"
    unfolding well_formed_def W_def by blast
  have cl: "closed W"
    unfolding closed_def
  proof (intro allI impI conjI)
    fix i opc args assume a: "OpNode i opc args \<in> set W"
    with wf show "args \<noteq> []" unfolding well_formed_def W_def by fastforce
    from a show "set args \<subseteq> set W" unfolding W_def using walk_args by blast
  qed
  have ord: "set order = fst ` set nmap" using check_input_order_set [OF chk' H] .
  have km: "mset keys = mset (map fst cmap)"
    unfolding keys_def using host_ok_value_keys [OF H] by simp
  from assignment [OF wfW V C ord km] obtain st1 regs0 store0 where
    a1: "foldE (assign_input nmap) (enumerate 0 order) (Map.empty, []) = Inr st1"
    and a2: "foldE (assign_constant cmap) (enumerate 0 keys) (fold (assign_temporary nm) W st1) =
        Inr (regs0, store0)"
    and lay: "layout n m store0"
    and len0: "length store0 = n + m + length keys"
    and key0: "keyed W nm regs0 n m (length store0)"
    and sep: "separate W nm"
    and va: "var_assigned order nm regs0 store0 W"
    and ca: "const_assigned keys (n + m) nm regs0 store0 W"
    and opk: "\<forall>i opc args. OpNode i opc args \<in> set W \<longrightarrow> node_map_get nm i = i"
    unfolding n_def m_def by blast
  from reuse_pass [OF cl sep lay subset_refl key0] obtain regs where
    r1: "foldE (reuse_temporary nm store0) W regs0 = Inr regs"
    and key: "keyed W nm regs n m (length store0)"
    and leaf: "\<forall>b\<in>set W. \<not> is_OpNode b \<longrightarrow>
        regs (node_map_get nm (node_id b)) = regs0 (node_map_get nm (node_id b))"
    by blast
  \<comment> \<open>the output register\<close>
  from op obtain i0 opc0 args0 where ex: "ex = OpNode i0 opc0 args0" by (cases ex) auto
  have exW: "ex \<in> set W" unfolding W_def by (rule self_in_walk)
  then have "OpNode i0 opc0 args0 \<in> set W" using ex by simp
  with opk have "node_map_get nm i0 = i0" by blast
  with ex have k0: "node_map_get nm (node_id ex) = node_id ex" by simp
  from key exW op k0 obtain r0 where r0: "regs (node_id ex) = Some r0" "n \<le> r0" "r0 < n + m"
    unfolding keyed_def by fastforce
  define store1 where "store1 = store0[r0 := (store0 ! r0)\<lparr>reg_n := Some 0, reg_temporary := False\<rparr>]"
  have o1: "output_register regs (node_id ex) store0 = Inr store1"
    using r0 by (simp add: output_register_def store1_def)
  from lay have nm_le: "n + m \<le> length store0"
    and tmps: "\<forall>r<length store0. reg_temporary (store0 ! r) \<longrightarrow> n \<le> r \<and> r < n + m"
    and unn: "\<forall>r. n \<le> r \<and> r < n + m \<longrightarrow> store0 ! r = unnumbered"
    unfolding layout_def by blast+
  have len1: "length store1 = length store0" by (simp add: store1_def)
  have at_r0: "is_output (store1 ! r0)"
    using r0 nm_le unn by (simp add: store1_def is_output_def unnumbered_def Register_new_def)
  have other: "store1 ! r = store0 ! r" if "r \<noteq> r0" for r
    using that by (simp add: store1_def)
  have em1: "emitting n m store1 (store1, [])"
    unfolding emitting_def
  proof (simp only: prod.case, intro conjI allI impI)
    show "length store1 = length store1" by simp
  next
    fix r assume r: "r < length store1" "\<not> (n \<le> r \<and> r < n + m)"
    show "store1 ! r = store1 ! r" by simp
    from r r0 have "r \<noteq> r0" by auto
    with other tmps r len1 show "\<not> reg_temporary (store1 ! r)" by auto
  next
    fix r assume r: "n \<le> r \<and> r < n + m"
    show "is_output (store1 ! r) \<or> (store1 ! r = unnumbered \<and> r \<notin> set []) \<or>
        (is_temporary n (store1 ! r) \<and> r \<in> set [])"
    proof (cases "r = r0")
      case True
      with at_r0 show ?thesis by simp
    next
      case False
      with other unn r show ?thesis by simp
    qed
  next
    fix r assume "r < length store1" "is_output (store1 ! r)"
    then show "is_output (store1 ! r)" by simp
  qed
  from key len1 have key1: "keyed W nm regs n m (length store1)" by simp
  from emit_loop [OF key1 cl subset_refl em1, of "[]"] obtain prog store seen where
    e1: "foldE (emit n nm regs) W ([], store1, []) = Inr (prog, store, seen)"
    and rel: "list_all2 (entry_for nm regs) (filter is_OpNode W) prog"
    and em: "emitting n m store1 (store, seen)"
    and fin: "\<forall>e\<in>set prog. entry_settled store e"
    by auto
  from em have len: "length store = length store1"
    and outside: "\<forall>r<length store. \<not> (n \<le> r \<and> r < n + m) \<longrightarrow> store ! r = store1 ! r"
    and inside: "\<forall>r. n \<le> r \<and> r < n + m \<longrightarrow>
        is_output (store ! r) \<or> (store ! r = unnumbered \<and> r \<notin> set seen) \<or>
        (is_temporary n (store ! r) \<and> r \<in> set seen)"
    and keep: "\<forall>r<length store. is_output (store1 ! r) \<longrightarrow> is_output (store ! r)"
    unfolding emitting_def by auto
  \<comment> \<open>the two results\<close>
  let ?prog = "map (resolve store) prog"
  have res_true: "numexpr_node H ex io True = Inr (Precompiled ?prog)"
    unfolding numexpr_node_def
    using V C chk' a1 a2 r1 o1 e1 by (simp add: W_def [symmetric] keys_def [symmetric] n_def [symmetric])
  have res_false: "numexpr_node H ex io False =
      (case foldE (join_string H) ?prog [] of
         Inl e \<Rightarrow> Inl e
       | Inr s \<Rightarrow>
           Inr (Compiled
             \<lparr>nex_n_inputs = length order, nex_n_temps = length seen, nex_program = s,
              nex_constants = map to_float (value_keys H (const_keys ex)),
              nex_input_names = order\<rparr>))"
    unfolding numexpr_node_def
    using V C chk' a1 a2 r1 o1 e1
    by (simp add: W_def [symmetric] keys_def [symmetric] n_def [symmetric] ck split: sum.splits)
  \<comment> \<open>the registers in the final store\<close>
  have final_op: "is_output (store ! r) \<or> is_temporary n (store ! r)"
    if "b \<in> set W" "is_OpNode b" "regs (node_map_get nm (node_id b)) = Some r" "settled store r"
    for b r
  proof -
    from key that(1,2,3) have "n \<le> r \<and> r < n + m" unfolding keyed_def by fastforce
    with inside that(4) show ?thesis unfolding settled_def by blast
  qed
  have final_operand: "operand_ok order keys b (store ! r)"
    if b: "b \<in> set W" and r: "regs (node_map_get nm (node_id b)) = Some r" and s: "settled store r"
    for b r
  proof (cases b)
    case (OpNode i opc args)
    with final_op [OF b _ r s] show ?thesis by (simp add: n_def)
  next
    case (VariableNode i s')
    with va b obtain j where j: "regs0 (node_map_get nm i) = Some j" "last_index order s' = Some j"
      "j < length order" "store0 ! j = Register_new (Some (Suc j)) (Some s') False False None"
      unfolding var_assigned_def by blast
    from leaf [rule_format, OF b] VariableNode r j(1) have "r = j" by simp
    moreover from j(3) r0 have "j \<noteq> r0" "\<not> (n \<le> j \<and> j < n + m)" by (auto simp: n_def)
    moreover from j(3) nm_le have "j < length store" using len len1 by (simp add: n_def)
    ultimately have "store ! r = store0 ! j" using outside other by simp
    with j VariableNode show ?thesis by simp
  next
    case (ConstantNode i v)
    with ca b obtain p where p: "regs0 (node_map_get nm i) = Some (n + m + p)" "p < length keys"
      "py_eq (keys ! p) v"
      "store0 ! (n + m + p) = Register_new (Some p) None False True (Some (keys ! p))"
      unfolding const_assigned_def by blast
    from leaf [rule_format, OF b] ConstantNode r p(1) have "r = n + m + p" by simp
    moreover from r0 have "n + m + p \<noteq> r0" "\<not> (n \<le> n + m + p \<and> n + m + p < n + m)" by auto
    moreover from p(2) len0 have "n + m + p < length store" using len len1 by simp
    ultimately have "store ! r = store0 ! (n + m + p)" using outside other by simp
    with p ConstantNode show ?thesis by (simp add: Register_new_def)
  qed
  have ok: "instr_ok order keys a (resolve store e)"
    if a: "a \<in> set (filter is_OpNode W)" and e: "e \<in> set prog" and ae: "entry_for nm regs a e"
    for a e
  proof -
    from a have aW: "a \<in> set W" and aop: "is_OpNode a" by simp_all
    from aop obtain i opc args where A: "a = OpNode i opc args" by (cases a) auto
    obtain opcode d r1 r2 where E: "e = (opcode, d, r1, r2)" by (cases e) auto
    from ae A E obtain b1 rest where args: "args = b1 # rest" by (cases args) auto
    from cl aW A have sub: "set args \<subseteq> set W" unfolding closed_def by blast
    from fin e E have sd: "settled store d" and s1: "settled store r1"
      and s2: "\<forall>r. r2 = Some r \<longrightarrow> settled store r"
      by (auto split: option.splits)
    from ae A E args have opc: "opcode = opc" and d: "regs (node_map_get nm i) = Some d"
      and r1: "regs (node_map_get nm (node_id b1)) = Some r1"
      by simp_all
    from final_op [OF aW aop _ sd] d A
    have D: "is_output (store ! d) \<or> is_temporary (length order) (store ! d)" by (simp add: n_def)
    from sub args have "b1 \<in> set W" by simp
    from final_operand [OF this r1 s1] have O1: "operand_ok order keys b1 (store ! r1)" .
    show ?thesis
    proof (cases rest)
      case Nil
      with ae A E args have "r2 = None" by simp
      with A E args Nil opc D O1 show ?thesis by (simp add: resolve_def)
    next
      case (Cons b2 others)
      with ae A E args obtain r where r: "r2 = Some r" "regs (node_map_get nm (node_id b2)) = Some r"
        by (cases r2) auto
      from sub args Cons have "b2 \<in> set W" by simp
      from final_operand [OF this r(2)] s2 r(1) have "operand_ok order keys b2 (store ! r)" by simp
      with A E args Cons opc D O1 r show ?thesis by (simp add: resolve_def)
    qed
  qed
  have all: "list_all2 (instr_ok order keys) (filter is_OpNode W) ?prog"
    unfolding list_all2_map2
    by (rule list.rel_mono_strong [OF rel]) (rule ok)
  \<comment> \<open>the last instruction\<close>
  from last_filter_walk [OF op] have ne: "filter is_OpNode W \<noteq> []"
    and la: "last (filter is_OpNode W) = ex" unfolding W_def by simp_all
  from list_all2_last [OF rel ne] la have le: "entry_for nm regs ex (last prog)" by simp
  from rel ne have pne: "prog \<noteq> []" by (auto simp: list_all2_Nil2)
  obtain opcode d r1 r2 where L: "last prog = (opcode, d, r1, r2)" by (cases "last prog") auto
  from le L ex k0 r0 have "d = r0"
    by (cases args0) auto
  moreover have "is_output (store ! r0)"
    using keep at_r0 r0 nm_le len len1 by simp
  ultimately have lo: "is_output (fst (snd (last ?prog)))"
    using L pne by (simp add: last_map resolve_def)
  from res_true res_false all lo show ?thesis
    unfolding keys_def W_def ck by blast
qed

subsection \<open>From the expression to the program\<close>

lemma numexpr_expression:
  "expression_of H src h = Inr (PyNode x, h') \<Longrightarrow>
   numexpr H src io pre h = numexpr_node H (wrapped x h') io pre"
  by (simp add: numexpr_def wrapped_def OpNode_new_def)

lemma is_OpNode_wrapped: "is_OpNode (wrapped x h)"
  by (simp add: wrapped_def)

lemma name_map_names:
  "map fst (fst (fold canonicalize_variable (walk ex) ([], Map.empty))) = variable_names ex"
proof -
  obtain nmap nm where f: "fold canonicalize_variable (walk ex) ([], Map.empty) = (nmap, nm)"
    by (cases "fold canonicalize_variable (walk ex) ([], Map.empty)") auto
  from canonicalize_variables [OF f] have "map fst nmap = first_seen [s. VariableNode i s \<leftarrow> walk ex]"
    by (rule conjunct1)
  with f show ?thesis by (simp add: variable_names_def)
qed

lemma numexpr_node_order:
  "numexpr_node H ex io pre = Inr r \<Longrightarrow>
   \<exists>order. check_input_order H (fst (fold canonicalize_variable (walk ex) ([], Map.empty))) io
     = Inr order"
  by (cases "check_input_order H (fst (fold canonicalize_variable (walk ex) ([], Map.empty))) io")
     (auto simp: numexpr_node_def split: prod.splits)




lemma compiled_program:
  assumes src: "expression_of H src h = Inr (PyNode x, h')"
    and wf: "well_formed (wrapped x h')"
    and H: "host_ok H"
    and res: "numexpr H src io True h = Inr (Precompiled prog)"
  shows "\<exists>order n_temps.
      check_input_order H (fst (fold canonicalize_variable (walk (wrapped x h')) ([], Map.empty))) io
        = Inr order \<and>
      numexpr H src io False h =
        (case foldE (join_string H) prog [] of
           Inl e \<Rightarrow> Inl e
         | Inr s \<Rightarrow>
             Inr (Compiled
               \<lparr>nex_n_inputs = length order, nex_n_temps = n_temps, nex_program = s,
                nex_constants = map to_float (value_keys H (const_keys (wrapped x h'))),
                nex_input_names = order\<rparr>)) \<and>
      list_all2 (instr_ok order (value_keys H (const_keys (wrapped x h'))))
        (filter is_OpNode (walk (wrapped x h'))) prog \<and>
      is_output (fst (snd (last prog)))"
proof -
  let ?ex = "wrapped x h'"
  from res have r: "numexpr_node H ?ex io True = Inr (Precompiled prog)"
    by (simp add: numexpr_expression [OF src])
  from numexpr_node_order [OF r] obtain order where
    chk: "check_input_order H (fst (fold canonicalize_variable (walk ?ex) ([], Map.empty))) io
      = Inr order" by blast
  from numexpr_node_compiles [OF is_OpNode_wrapped wf H chk] obtain prog' n_temps where
    p: "numexpr_node H ?ex io True = Inr (Precompiled prog')"
    "numexpr_node H ?ex io False =
        (case foldE (join_string H) prog' [] of
           Inl e \<Rightarrow> Inl e
         | Inr s \<Rightarrow>
             Inr (Compiled
               \<lparr>nex_n_inputs = length order, nex_n_temps = n_temps, nex_program = s,
                nex_constants = map to_float (value_keys H (const_keys ?ex)),
                nex_input_names = order\<rparr>))"
    "list_all2 (instr_ok order (value_keys H (const_keys ?ex))) (filter is_OpNode (walk ?ex)) prog'"
    "is_output (fst (snd (last prog')))"
    by blast
  from p(1) r have "prog' = prog" by simp
  with p chk show ?thesis by (auto simp: numexpr_expression [OF src])
qed

subsection \<open>The claims on the construction of operations\<close>

text \<open>
  C1, as the code has it. Let \<open>x\<close> be a node that is no constant. For a number \<open>c\<close> of the
  host that is an \<open>int\<close> or a \<open>float\<close>, the operation \<open>x - c\<close> is an \<open>add_c\<close> whose second operand
  is a new constant holding \<open>-c\<close>; the operation \<open>x / c\<close> is a \<open>mul_c\<close> whose second operand is
  a new constant holding \<open>1.0 / c\<close> when \<open>c\<close> is not zero, and raises \<open>ZeroDivisionError\<close> when
  \<open>c\<close> is zero. For a \<open>long\<close> \<open>c\<close> both raise \<open>TypeError\<close>. The text \<open>a-1\<close> compiles to one \<open>add_c\<close>
  with the constant \<open>-1\<close> as second operand and pool \<open>[-1.0]\<close>, the text \<open>a/2\<close> to one \<open>mul_c\<close>
  with constant \<open>0.5\<close> and pool \<open>[0.5]\<close>.
\<close>

theorem constant_second_operand:
  "(\<not> is_ConstantNode x \<and> python_number mx c \<and> \<not> is_long c \<longrightarrow>
      binary mx Sub (PyNode x) (PyNum c) h =
        Inr (PyNode (OpNode (Suc h) ''add_c'' [x, ConstantNode (Suc (Suc h)) (py_neg mx c)]),
             Suc (Suc (Suc h))) \<and>
      binary mx Div (PyNode x) (PyNum c) h =
        (if to_float c = 0 then Inl ZeroDivisionError
         else Inr (PyNode (OpNode (Suc h) ''mul_c''
                     [x, ConstantNode (Suc (Suc h)) (PyFloat (1 / to_float c))]),
                   Suc (Suc (Suc h))))) \<and>
   (\<not> is_ConstantNode x \<and> is_long c \<longrightarrow>
      binary mx Sub (PyNode x) (PyNum c) h = Inl TypeError \<and>
      binary mx Div (PyNode x) (PyNum c) h = Inl TypeError) \<and>
   (host_ok H \<and> parse H ''a-1'' = Some (BinOp (Name ''a'') Sub (Num (PyInt 1))) \<longrightarrow>
      numexpr H (Text ''a-1'') None True h =
        Inr (Precompiled [(''add_c'',
          Register_new (Some 0) None False False None,
          Register_new (Some 1) (Some ''a'') False False None,
          Some (Register_new (Some 0) None False True (Some (PyInt (- 1)))))]) \<and>
      (\<forall>k. opcodes H ''add_c'' = Some k \<and> k < 256 \<longrightarrow>
         numexpr H (Text ''a-1'') None False h =
           Inr (Compiled \<lparr>nex_n_inputs = 1, nex_n_temps = 0,
             nex_program = [char_of k, char_of (0::nat), char_of (1::nat), char_of (0::nat)],
             nex_constants = [- 1], nex_input_names = [''a'']\<rparr>))) \<and>
   (host_ok H \<and> parse H ''a/2'' = Some (BinOp (Name ''a'') Div (Num (PyInt 2))) \<longrightarrow>
      numexpr H (Text ''a/2'') None True h =
        Inr (Precompiled [(''mul_c'',
          Register_new (Some 0) None False False None,
          Register_new (Some 1) (Some ''a'') False False None,
          Some (Register_new (Some 0) None False True (Some (PyFloat (1 / 2)))))]) \<and>
      (\<forall>k. opcodes H ''mul_c'' = Some k \<and> k < 256 \<longrightarrow>
         numexpr H (Text ''a/2'') None False h =
           Inr (Compiled \<lparr>nex_n_inputs = 1, nex_n_temps = 0,
             nex_program = [char_of k, char_of (0::nat), char_of (1::nat), char_of (0::nat)],
             nex_constants = [1 / 2], nex_input_names = [''a'']\<rparr>)))"
proof -
  have sub: "binary mx Sub (PyNode x) (PyNum c) h =
      Inr (PyNode (OpNode (Suc h) ''add_c'' [x, ConstantNode (Suc (Suc h)) (py_neg mx c)]),
           Suc (Suc (Suc h)))"
    and div: "binary mx Div (PyNode x) (PyNum c) h =
      (if to_float c = 0 then Inl ZeroDivisionError
       else Inr (PyNode (OpNode (Suc h) ''mul_c''
                   [x, ConstantNode (Suc (Suc h)) (PyFloat (1 / to_float c))]),
                 Suc (Suc (Suc h))))"
    if "\<not> is_ConstantNode x" "\<not> is_long c"
    using that
    by (simp_all add: binary_node_number binop_number OpNode_new_nonconst_sub
          OpNode_new_nonconst_div del: binary.simps)
  have long: "binary mx f (PyNode x) (PyNum c) h = Inl TypeError" if "is_long c" for f
    using that by (simp add: binary_node_number binop_long del: binary.simps)
  have one: "numexpr H (Text ''a-1'') None True h =
        Inr (Precompiled [(''add_c'',
          Register_new (Some 0) None False False None,
          Register_new (Some 1) (Some ''a'') False False None,
          Some (Register_new (Some 0) None False True (Some (PyInt (- 1)))))]) \<and>
      (\<forall>k. opcodes H ''add_c'' = Some k \<and> k < 256 \<longrightarrow>
         numexpr H (Text ''a-1'') None False h =
           Inr (Compiled \<lparr>nex_n_inputs = 1, nex_n_temps = 0,
             nex_program = [char_of k, char_of (0::nat), char_of (1::nat), char_of (0::nat)],
             nex_constants = [- 1], nex_input_names = [''a'']\<rparr>))"
    if "host_ok H" "parse H ''a-1'' = Some (BinOp (Name ''a'') Sub (Num (PyInt 1)))"
    using that host_ok_maxint [OF that(1)]
    by (simp add: compile_defs host_ok_value_single)
  have two: "numexpr H (Text ''a/2'') None True h =
        Inr (Precompiled [(''mul_c'',
          Register_new (Some 0) None False False None,
          Register_new (Some 1) (Some ''a'') False False None,
          Some (Register_new (Some 0) None False True (Some (PyFloat (1 / 2)))))]) \<and>
      (\<forall>k. opcodes H ''mul_c'' = Some k \<and> k < 256 \<longrightarrow>
         numexpr H (Text ''a/2'') None False h =
           Inr (Compiled \<lparr>nex_n_inputs = 1, nex_n_temps = 0,
             nex_program = [char_of k, char_of (0::nat), char_of (1::nat), char_of (0::nat)],
             nex_constants = [1 / 2], nex_input_names = [''a'']\<rparr>))"
    if "host_ok H" "parse H ''a/2'' = Some (BinOp (Name ''a'') Div (Num (PyInt 2)))"
    using that by (simp add: compile_defs host_ok_value_single)
  from sub div long one two show ?thesis by blast
qed

text \<open>The claim C1 as stated fails for the divisor zero: \<open>a / 0\<close> builds no operation.\<close>

theorem division_by_zero_literal:
  "binary (maxint example_host) Div (PyNode (VariableNode 0 ''a'')) (PyNum (PyInt 0)) 1 =
     Inl ZeroDivisionError \<and>
   numexpr example_host (Text ''a/0'') None True 0 = Inl ZeroDivisionError"
  by (simp add: compile_defs example_host_def example_parse_def)

theorem constant_second_operand_witness:
  "binary 9223372036854775807 Sub (PyNode (VariableNode 0 ''a'')) (PyNum (PyInt 1)) 1 =
     Inr (PyNode (OpNode 2 ''add_c'' [VariableNode 0 ''a'', ConstantNode 3 (PyInt (- 1))]), 4) \<and>
   binary 9223372036854775807 Div (PyNode (VariableNode 0 ''a'')) (PyNum (PyInt 2)) 1 =
     Inr (PyNode (OpNode 2 ''mul_c'' [VariableNode 0 ''a'', ConstantNode 3 (PyFloat (1 / 2))]), 4) \<and>
   binary 9223372036854775807 Sub (PyNode (VariableNode 0 ''a''))
       (PyNum (PyLong 9223372036854775808)) 1 = Inl TypeError \<and>
   numexpr example_host (Text ''a-1'') None False 0 =
     Inr (Compiled \<lparr>nex_n_inputs = 1, nex_n_temps = 0,
       nex_program = [char_of (7::nat), char_of (0::nat), char_of (1::nat), char_of (0::nat)],
       nex_constants = [- 1], nex_input_names = [''a'']\<rparr>) \<and>
   numexpr example_host (Text ''a/2'') None False 0 =
     Inr (Compiled \<lparr>nex_n_inputs = 1, nex_n_temps = 0,
       nex_program = [char_of (9::nat), char_of (0::nat), char_of (1::nat), char_of (0::nat)],
       nex_constants = [1 / 2], nex_input_names = [''a'']\<rparr>)"
  using constant_second_operand
      [of "VariableNode 0 ''a''" 9223372036854775807 "PyInt 1" 1 example_host]
    constant_second_operand
      [of "VariableNode 0 ''a''" 9223372036854775807 "PyInt 2" 1 example_host]
    constant_second_operand
      [of "VariableNode 0 ''a''" 9223372036854775807 "PyLong 9223372036854775808" 1 example_host]
    constant_second_operand
      [of "VariableNode 0 ''a''" 9223372036854775807 "PyInt 2" 0 example_host]
    host_ok_example
  by (simp add: example_host_def example_parse_def example_opcodes_def int_result_def
        numeral_3_eq_3 eval_nat_numeral)

text \<open>
  C9, as the code has it. Let \<open>x\<close> be a node that is no constant. Its reflected method is
  its forward method, for each of the four operators, so \<open>c - x\<close> is what \<open>x - c\<close> is. For a
  number \<open>c\<close> of the host that is an \<open>int\<close> or a \<open>float\<close> this is the operation built from \<open>x\<close> and
  a new constant holding \<open>c\<close>, in this order: \<open>c + x\<close> is the \<open>add_c\<close> and \<open>c * x\<close> the \<open>mul_c\<close> of
  \<open>x\<close> and \<open>c\<close>, \<open>c - x\<close> is the \<open>add_c\<close> of \<open>x\<close> and \<open>-c\<close>, and \<open>c / x\<close> is the \<open>mul_c\<close> of \<open>x\<close> and
  \<open>1.0 / c\<close>, or raises \<open>ZeroDivisionError\<close> when \<open>c\<close> is zero. For a \<open>long\<close> \<open>c\<close> both \<open>c - x\<close> and
  \<open>x - c\<close> raise \<open>TypeError\<close>, and so for the other operators.
\<close>

theorem reflected_as_forward:
  "\<not> is_ConstantNode x \<longrightarrow>
     method_rop mx f x = method_op mx f x \<and>
     binary mx f (PyNum c) (PyNode x) h = binary mx f (PyNode x) (PyNum c) h \<and>
     (python_number mx c \<and> \<not> is_long c \<longrightarrow>
        binary mx f (PyNum c) (PyNode x) h =
          (case OpNode_new mx (opname f) [x, ConstantNode h c] (Suc h) of
             Inl e \<Rightarrow> Inl e | Inr (r, h') \<Rightarrow> Inr (PyNode r, h')) \<and>
        binary mx Add (PyNum c) (PyNode x) h =
          Inr (PyNode (OpNode (Suc h) ''add_c'' [x, ConstantNode h c]), Suc (Suc h)) \<and>
        binary mx Mult (PyNum c) (PyNode x) h =
          Inr (PyNode (OpNode (Suc h) ''mul_c'' [x, ConstantNode h c]), Suc (Suc h)) \<and>
        binary mx Sub (PyNum c) (PyNode x) h =
          Inr (PyNode (OpNode (Suc h) ''add_c'' [x, ConstantNode (Suc (Suc h)) (py_neg mx c)]),
               Suc (Suc (Suc h))) \<and>
        binary mx Div (PyNum c) (PyNode x) h =
          (if to_float c = 0 then Inl ZeroDivisionError
           else Inr (PyNode (OpNode (Suc h) ''mul_c''
                       [x, ConstantNode (Suc (Suc h)) (PyFloat (1 / to_float c))]),
                     Suc (Suc (Suc h))))) \<and>
     (is_long c \<longrightarrow>
        binary mx f (PyNum c) (PyNode x) h = Inl TypeError \<and>
        binary mx f (PyNode x) (PyNum c) h = Inl TypeError)"
proof (intro impI)
  assume x: "\<not> is_ConstantNode x"
  have m: "method_rop mx f x = method_op mx f x"
  proof (rule ext, rule ext)
    fix other h
    from x show "method_rop mx f x other h = method_op mx f x other h"
      by (cases x; cases f)
         (simp_all add: method_rop_def ExpressionNode_add_def ExpressionNode_sub_def
            ExpressionNode_mul_def ExpressionNode_div_def ExpressionNode_radd_def
            ExpressionNode_rsub_def ExpressionNode_rmul_def ExpressionNode_rdiv_def)
  qed
  have b: "binary mx f (PyNum c) (PyNode x) h = binary mx f (PyNode x) (PyNum c) h"
    by (simp add: binary_node_number binary_number_node del: binary.simps)
  have n: "binary mx g (PyNum c) (PyNode x) h =
          (case OpNode_new mx (opname g) [x, ConstantNode h c] (Suc h) of
             Inl e \<Rightarrow> Inl e | Inr (r, h') \<Rightarrow> Inr (PyNode r, h'))" if "\<not> is_long c" for g
    using that
    by (simp add: binary_number_node binop_number del: binary.simps split: sum.splits)
  have shapes:
    "binary mx Add (PyNum c) (PyNode x) h =
          Inr (PyNode (OpNode (Suc h) ''add_c'' [x, ConstantNode h c]), Suc (Suc h))"
    "binary mx Mult (PyNum c) (PyNode x) h =
          Inr (PyNode (OpNode (Suc h) ''mul_c'' [x, ConstantNode h c]), Suc (Suc h))"
    "binary mx Sub (PyNum c) (PyNode x) h =
          Inr (PyNode (OpNode (Suc h) ''add_c'' [x, ConstantNode (Suc (Suc h)) (py_neg mx c)]),
               Suc (Suc (Suc h)))"
    "binary mx Div (PyNum c) (PyNode x) h =
          (if to_float c = 0 then Inl ZeroDivisionError
           else Inr (PyNode (OpNode (Suc h) ''mul_c''
                       [x, ConstantNode (Suc (Suc h)) (PyFloat (1 / to_float c))]),
                     Suc (Suc (Suc h))))"
    if "\<not> is_long c"
  proof -
    from that x show "binary mx Add (PyNum c) (PyNode x) h =
          Inr (PyNode (OpNode (Suc h) ''add_c'' [x, ConstantNode h c]), Suc (Suc h))"
      by (simp add: n OpNode_new_def del: binary.simps)
    from that x show "binary mx Mult (PyNum c) (PyNode x) h =
          Inr (PyNode (OpNode (Suc h) ''mul_c'' [x, ConstantNode h c]), Suc (Suc h))"
      by (simp add: n OpNode_new_def del: binary.simps)
    from that x show "binary mx Sub (PyNum c) (PyNode x) h =
          Inr (PyNode (OpNode (Suc h) ''add_c'' [x, ConstantNode (Suc (Suc h)) (py_neg mx c)]),
               Suc (Suc (Suc h)))"
      by (simp add: n OpNode_new_nonconst_sub del: binary.simps)
    from that x show "binary mx Div (PyNum c) (PyNode x) h =
          (if to_float c = 0 then Inl ZeroDivisionError
           else Inr (PyNode (OpNode (Suc h) ''mul_c''
                       [x, ConstantNode (Suc (Suc h)) (PyFloat (1 / to_float c))]),
                     Suc (Suc (Suc h))))"
      by (simp add: n OpNode_new_nonconst_div del: binary.simps)
  qed
  have l: "binary mx f (PyNum c) (PyNode x) h = Inl TypeError" if "is_long c"
    using that by (simp add: binary_number_node binop_long del: binary.simps)
  from m b n shapes l show "method_rop mx f x = method_op mx f x \<and>
     binary mx f (PyNum c) (PyNode x) h = binary mx f (PyNode x) (PyNum c) h \<and>
     (python_number mx c \<and> \<not> is_long c \<longrightarrow>
        binary mx f (PyNum c) (PyNode x) h =
          (case OpNode_new mx (opname f) [x, ConstantNode h c] (Suc h) of
             Inl e \<Rightarrow> Inl e | Inr (r, h') \<Rightarrow> Inr (PyNode r, h')) \<and>
        binary mx Add (PyNum c) (PyNode x) h =
          Inr (PyNode (OpNode (Suc h) ''add_c'' [x, ConstantNode h c]), Suc (Suc h)) \<and>
        binary mx Mult (PyNum c) (PyNode x) h =
          Inr (PyNode (OpNode (Suc h) ''mul_c'' [x, ConstantNode h c]), Suc (Suc h)) \<and>
        binary mx Sub (PyNum c) (PyNode x) h =
          Inr (PyNode (OpNode (Suc h) ''add_c'' [x, ConstantNode (Suc (Suc h)) (py_neg mx c)]),
               Suc (Suc (Suc h))) \<and>
        binary mx Div (PyNum c) (PyNode x) h =
          (if to_float c = 0 then Inl ZeroDivisionError
           else Inr (PyNode (OpNode (Suc h) ''mul_c''
                       [x, ConstantNode (Suc (Suc h)) (PyFloat (1 / to_float c))]),
                     Suc (Suc (Suc h))))) \<and>
     (is_long c \<longrightarrow>
        binary mx f (PyNum c) (PyNode x) h = Inl TypeError \<and>
        binary mx f (PyNode x) (PyNum c) h = Inl TypeError)"
    by (simp add: b [symmetric] del: binary.simps)
qed

theorem reflected_as_forward_witness:
  "binary 9223372036854775807 Sub (PyNum (PyInt 1)) (PyNode (VariableNode 0 ''a'')) 1 =
     binary 9223372036854775807 Sub (PyNode (VariableNode 0 ''a'')) (PyNum (PyInt 1)) 1 \<and>
   binary 9223372036854775807 Sub (PyNum (PyInt 1)) (PyNode (VariableNode 0 ''a'')) 1 =
     Inr (PyNode (OpNode 2 ''add_c'' [VariableNode 0 ''a'', ConstantNode 3 (PyInt (- 1))]), 4) \<and>
   binary 9223372036854775807 Sub (PyNode (VariableNode 0 ''a''))
       (PyNum (PyLong 9223372036854775808)) 1 = Inl TypeError"
  using reflected_as_forward [of "VariableNode 0 ''a''" 9223372036854775807 Sub "PyInt 1" 1]
    reflected_as_forward
      [of "VariableNode 0 ''a''" 9223372036854775807 Sub "PyLong 9223372036854775808" 1]
  by (simp add: compile_defs eval_nat_numeral)

text \<open>
  The claim C9 as stated fails for a \<open>long\<close>: on a platform whose largest \<open>int\<close> is
  \<open>9223372036854775807\<close>, the operation \<open>9223372036854775808 - a\<close> raises \<open>TypeError\<close> and builds
  nothing.
\<close>

theorem reflected_sub_of_long:
  "python_number (maxint example_host) (PyLong 9223372036854775808) \<and>
   binary (maxint example_host) Sub (PyNum (PyLong 9223372036854775808))
       (PyNode (VariableNode 0 ''a'')) 1 = Inl TypeError \<and>
   numexpr example_host (Text ''9223372036854775808-a'') None True 0 = Inl TypeError"
  by (simp add: compile_defs example_host_def example_parse_def)

text \<open>
  C2 at the operation \<open>1 - a\<close> built from the constant node \<open>1\<close> and the variable \<open>a\<close>:
  the opcode is \<open>sub_c\<close>, and the instruction has the register of the constant as its first
  operand and the register of the variable as its second, in the list of the program and in
  the bytes \<open>[sub_c, 0, 0, 1]\<close> of the program string.
\<close>

theorem constant_first_operand_slot:
  "binary mx Sub (PyNode (ConstantNode 0 (PyInt 1))) (PyNode (VariableNode 1 ''a'')) 2 =
     Inr (PyNode (OpNode 2 ''sub_c'' [ConstantNode 0 (PyInt 1), VariableNode 1 ''a'']), 3) \<and>
   numexpr example_host
       (Object (PyNode (OpNode 2 ''sub_c'' [ConstantNode 0 (PyInt 1), VariableNode 1 ''a''])))
       None True 3 =
     Inr (Precompiled [(''sub_c'',
       Register_new (Some 0) None False False None,
       Register_new (Some 0) None False True (Some (PyInt 1)),
       Some (Register_new (Some 1) (Some ''a'') False False None))]) \<and>
   numexpr example_host
       (Object (PyNode (OpNode 2 ''sub_c'' [ConstantNode 0 (PyInt 1), VariableNode 1 ''a''])))
       None False 3 =
     Inr (Compiled \<lparr>nex_n_inputs = 1, nex_n_temps = 0,
       nex_program = [char_of (8::nat), char_of (0::nat), char_of (0::nat), char_of (1::nat)],
       nex_constants = [1], nex_input_names = [''a'']\<rparr>)"
  by (simp add: compile_defs example_host_def example_opcodes_def eval_nat_numeral)

text \<open>
  C4 on the code. The host evaluates the text \<open>2+3\<close> to the number 5, not to a node:
  \<open>numexpr\<close> wraps the number into a \<open>copy\<close> and fails with \<open>AttributeError\<close> when it walks the
  operand. Built from two constant nodes, the sum folds to one constant node, and that
  compiles to one \<open>copy\<close> of a constant register, with pool \<open>[5.0]\<close>.
\<close>

theorem constant_text_fails:
  "(parse H ''2+3'' = Some (BinOp (Num (PyInt 2)) Add (Num (PyInt 3))) \<longrightarrow>
      numexpr H (Text ''2+3'') input_order precompiled h = Inl AttributeError \<and>
      (\<exists>v. string2expression H ''2+3'' h = Inr (PyNum v, h) \<and> to_float v = 5) \<and>
      (5 \<le> maxint H \<longrightarrow> string2expression H ''2+3'' h = Inr (PyNum (PyInt 5), h))) \<and>
   (5 \<le> mx \<longrightarrow>
      binary mx Add (PyNode (ConstantNode i (PyInt 2))) (PyNode (ConstantNode j (PyInt 3))) h =
        Inr (PyNode (ConstantNode h (PyInt 5)), Suc h)) \<and>
   (host_ok H \<longrightarrow>
      numexpr H (Object (PyNode (ConstantNode i (PyInt 5)))) None True (Suc i) =
        Inr (Precompiled [(''copy'',
          Register_new (Some 0) None False False None,
          Register_new (Some 0) None False True (Some (PyInt 5)),
          None)]) \<and>
      (\<forall>k. opcodes H ''copy'' = Some k \<and> k < 256 \<longrightarrow>
         numexpr H (Object (PyNode (ConstantNode i (PyInt 5)))) None False (Suc i) =
           Inr (Compiled \<lparr>nex_n_inputs = 0, nex_n_temps = 0,
             nex_program = [char_of k, char_of (0::nat), char_of (0::nat), char_of (0::nat)],
             nex_constants = [5], nex_input_names = []\<rparr>)))"
proof -
  have a: "numexpr H (Text ''2+3'') input_order precompiled h = Inl AttributeError \<and>
      (\<exists>v. string2expression H ''2+3'' h = Inr (PyNum v, h) \<and> to_float v = 5)"
    if "parse H ''2+3'' = Some (BinOp (Num (PyInt 2)) Add (Num (PyInt 3)))"
    using that by (simp add: compile_defs)
  have b: "string2expression H ''2+3'' h = Inr (PyNum (PyInt 5), h)"
    if "parse H ''2+3'' = Some (BinOp (Num (PyInt 2)) Add (Num (PyInt 3)))" "5 \<le> maxint H"
    using that by (simp add: compile_defs)
  have c: "binary mx Add (PyNode (ConstantNode i (PyInt 2))) (PyNode (ConstantNode j (PyInt 3))) h =
        Inr (PyNode (ConstantNode h (PyInt 5)), Suc h)" if "5 \<le> mx"
    using that by (simp add: compile_defs)
  have d: "numexpr H (Object (PyNode (ConstantNode i (PyInt 5)))) None True (Suc i) =
        Inr (Precompiled [(''copy'',
          Register_new (Some 0) None False False None,
          Register_new (Some 0) None False True (Some (PyInt 5)),
          None)]) \<and>
      (\<forall>k. opcodes H ''copy'' = Some k \<and> k < 256 \<longrightarrow>
         numexpr H (Object (PyNode (ConstantNode i (PyInt 5)))) None False (Suc i) =
           Inr (Compiled \<lparr>nex_n_inputs = 0, nex_n_temps = 0,
             nex_program = [char_of k, char_of (0::nat), char_of (0::nat), char_of (0::nat)],
             nex_constants = [5], nex_input_names = []\<rparr>))" if "host_ok H"
    using that by (simp add: compile_defs host_ok_value_single)
  from a b c d show ?thesis by blast
qed

theorem constant_text_fails_witness:
  "string2expression example_host ''2+3'' 0 = Inr (PyNum (PyInt 5), 0) \<and>
   numexpr example_host (Text ''2+3'') None False 0 = Inl AttributeError \<and>
   binary 9223372036854775807 Add (PyNode (ConstantNode 0 (PyInt 2)))
       (PyNode (ConstantNode 1 (PyInt 3))) 2 = Inr (PyNode (ConstantNode 2 (PyInt 5)), 3) \<and>
   numexpr example_host (Object (PyNode (ConstantNode 0 (PyInt 5)))) None False 1 =
     Inr (Compiled \<lparr>nex_n_inputs = 0, nex_n_temps = 0,
       nex_program = [char_of (1::nat), char_of (0::nat), char_of (0::nat), char_of (0::nat)],
       nex_constants = [5], nex_input_names = []\<rparr>)"
  using constant_text_fails [of example_host None False 0 9223372036854775807 0 1]
    constant_text_fails [of example_host None False 2 9223372036854775807 0 1]
    host_ok_example
  by (simp add: example_host_def example_parse_def example_opcodes_def eval_nat_numeral
        del: binary.simps)

subsection \<open>The cache of compiled expressions\<close>

text \<open>
  C8. A string that is in the cache is answered from the cache: the compiled object is
  the cached one, whatever the compiler would do (whatever the host and the heap are),
  and the cache does not change. A string that is not in the cache is compiled; when that
  raises, \<open>evaluate\<close> raises the same error and the cache does not change, and when it
  succeeds the compiled object is stored under the string, so that the next call with
  the same string finds it.
\<close>

theorem evaluate_cache:
  "(numexpr_cache s = Some p \<longrightarrow>
      snd (evaluate H fr (Text s) l g h numexpr_cache) = numexpr_cache \<and>
      evaluate H fr (Text s) l g h numexpr_cache = evaluate H' fr (Text s) l g h' numexpr_cache \<and>
      (\<forall>q args. fst (evaluate H fr (Text s) l g h numexpr_cache) = Inr (q, args) \<longrightarrow> q = p)) \<and>
   (numexpr_cache s = None \<and> numexpr H (Text s) None False h = Inl e \<longrightarrow>
      evaluate H fr (Text s) l g h numexpr_cache = (Inl e, numexpr_cache)) \<and>
   (numexpr_cache s = None \<and> numexpr H (Text s) None False h = Inr (Compiled p) \<longrightarrow>
      snd (evaluate H fr (Text s) l g h numexpr_cache) = numexpr_cache(s \<mapsto> p) \<and>
      (\<forall>q args. fst (evaluate H fr (Text s) l g h numexpr_cache) = Inr (q, args) \<longrightarrow> q = p))"
  by (auto simp: evaluate_def split: sum.splits prod.splits option.splits compiled.splits)

lemma example_compiles:
  "numexpr example_host (Text ''a+b'') None False 0 = Inr (Compiled example_program)"
  by (simp add: compile_defs example_host_def example_parse_def example_opcodes_def
        example_program_def host_ok_value_nil [OF host_ok_example, unfolded example_host_def, simplified])

lemma example_fails:
  "numexpr example_host (Text ''a/0'') None False 0 = Inl ZeroDivisionError"
  by (simp add: compile_defs example_host_def example_parse_def)

theorem evaluate_cache_witness:
  "evaluate example_host example_frame (Text ''a+b'') None None 0 Map.empty =
     (Inr (example_program, [10, 20]), [''a+b'' \<mapsto> example_program]) \<and>
   evaluate \<lparr>parse = (\<lambda>s. None), name_keys = id, value_keys = id, opcodes = (\<lambda>s. None), maxint = 0\<rparr>
       example_frame (Text ''a+b'') None None 7 [''a+b'' \<mapsto> example_program] =
     (Inr (example_program, [10, 20]), [''a+b'' \<mapsto> example_program]) \<and>
   evaluate example_host example_frame (Text ''a/0'') None None 0
       [''a+b'' \<mapsto> example_program] =
     (Inl ZeroDivisionError, [''a+b'' \<mapsto> example_program])"
proof -
  let ?c = "[''a+b'' \<mapsto> example_program]"
  let ?H = "\<lparr>parse = (\<lambda>s. None), name_keys = id, value_keys = id, opcodes = (\<lambda>s. None), maxint = 0\<rparr>"
  have none: "(Map.empty :: cache) ''a+b'' = None" and some: "?c ''a+b'' = Some example_program"
    and none': "?c ''a/0'' = None"
    by simp_all
  have args: "foldE (lookup_argument (f_locals example_frame) (f_globals example_frame))
      (nex_input_names example_program) [] = Inr [10, 20]"
    by (simp add: lookup_argument_def example_frame_def example_program_def)
  have first: "evaluate example_host example_frame (Text ''a+b'') None None 0 Map.empty =
      (Inr (example_program, [10, 20]), ?c)"
    using evaluate_cache [of Map.empty "''a+b''" example_program example_host example_frame
        None None 0 example_host 0 ZeroDivisionError] none example_compiles args
    by (simp add: evaluate_def)
  have second: "evaluate ?H example_frame (Text ''a+b'') None None 7 ?c =
      (Inr (example_program, [10, 20]), ?c)"
    using evaluate_cache [of ?c "''a+b''" example_program ?H example_frame
        None None 7 example_host 0 ZeroDivisionError] some args
    by (simp add: evaluate_def)
  have third: "evaluate example_host example_frame (Text ''a/0'') None None 0 ?c =
      (Inl ZeroDivisionError, ?c)"
    using evaluate_cache [of ?c "''a/0''" example_program example_host example_frame
        None None 0 example_host 0 ZeroDivisionError] none' example_fails
    by simp
  show ?thesis using first second third by simp
qed

subsection \<open>The order of the inputs and the errors of the serialisation\<close>

lemma distinct_variable_names: "distinct (variable_names ex)"
  by (simp add: variable_names_def)

lemma check_order_names:
  assumes "map fst nmap = names"
  shows "check_input_order H nmap io =
     (case io of
        None \<Rightarrow> Inr (sort names)
      | Some order \<Rightarrow>
          if order = [] then Inr (sort names)
          else
            (case find (\<lambda>s. s \<notin> set names) order of
               Some s \<Rightarrow> Inl (InputNotFound s)
             | None \<Rightarrow>
                 (case find (\<lambda>s. s \<notin> set order) (name_keys H names) of
                    Some s \<Rightarrow> Inl (InputNotSpecified s)
                  | None \<Rightarrow> Inr order)))"
proof -
  have e: "(\<lambda>s. map_of nmap s = None) = (\<lambda>s. s \<notin> set (map fst nmap))"
    by (auto simp: map_of_eq_None_iff)
  show ?thesis unfolding check_input_order_def e assms by (rule refl)
qed

lemma check_order_expression:
  "check_input_order H (fst (fold canonicalize_variable (walk ex) ([], Map.empty))) io =
     (case io of
        None \<Rightarrow> Inr (sort (variable_names ex))
      | Some order \<Rightarrow>
          if order = [] then Inr (sort (variable_names ex))
          else
            (case find (\<lambda>s. s \<notin> set (variable_names ex)) order of
               Some s \<Rightarrow> Inl (InputNotFound s)
             | None \<Rightarrow>
                 (case find (\<lambda>s. s \<notin> set order) (name_keys H (variable_names ex)) of
                    Some s \<Rightarrow> Inl (InputNotSpecified s)
                  | None \<Rightarrow> Inr order)))"
  by (rule check_order_names) (rule name_map_names)


lemma numexpr_node_check_error:
  "check_input_order H (fst (fold canonicalize_variable (walk ex) ([], Map.empty))) io = Inl e
   \<Longrightarrow> numexpr_node H ex io pre = Inl e"
  by (cases "fold canonicalize_variable (walk ex) ([], Map.empty)") (simp add: numexpr_node_def)

lemma compiles_with_order:
  assumes src: "expression_of H src h = Inr (PyNode x, h')"
    and wf: "well_formed (wrapped x h')"
    and H: "host_ok H"
    and chk: "check_input_order H
        (fst (fold canonicalize_variable (walk (wrapped x h')) ([], Map.empty))) io = Inr order"
  shows "\<exists>prog n_temps.
      numexpr H src io True h = Inr (Precompiled prog) \<and>
      numexpr H src io False h =
        (case foldE (join_string H) prog [] of
           Inl e \<Rightarrow> Inl e
         | Inr s \<Rightarrow>
             Inr (Compiled
               \<lparr>nex_n_inputs = length order, nex_n_temps = n_temps, nex_program = s,
                nex_constants = map to_float (value_keys H (const_keys (wrapped x h'))),
                nex_input_names = order\<rparr>)) \<and>
      list_all2 (instr_ok order (value_keys H (const_keys (wrapped x h'))))
        (filter is_OpNode (walk (wrapped x h'))) prog \<and>
      is_output (fst (snd (last prog)))"
  using numexpr_node_compiles [OF is_OpNode_wrapped wf H chk]
  by (simp add: numexpr_expression [OF src])

lemma to_string_errors:
  "to_string H t = Inl e \<Longrightarrow> e = KeyError \<or> e = TypeError \<or> e = ChrNotInRange"
  by (auto simp: to_string_def chr_def split: prod.splits option.splits sum.splits if_splits)

lemma join_string_errors:
  "foldE (join_string H) prog acc = Inl e \<Longrightarrow> e = KeyError \<or> e = TypeError \<or> e = ChrNotInRange"
proof (induction prog arbitrary: acc)
  case Nil
  then show ?case by simp
next
  case (Cons t prog)
  show ?case
  proof (cases "to_string H t")
    case (Inl e')
    then have "join_string H t acc = Inl e'"
      by (simp add: join_string_def)
    with Cons.prems have "e = e'" by simp
    with to_string_errors [OF Inl] show ?thesis by simp
  next
    case (Inr s)
    then have "join_string H t acc = Inr (acc @ s)"
      by (simp add: join_string_def)
    with Cons.prems have "foldE (join_string H) prog (acc @ s) = Inl e"
      by simp
    then show ?thesis by (rule Cons.IH)
  qed
qed

subsection \<open>The claims on the registers\<close>

text \<open>
  C10. An empty \<open>input_order\<close> compiles as an absent one does: the results are equal. For
  an expression that the host builds, no error about the input names is raised, a program is
  produced, and in it every variable has the input register whose index is one more than
  the position of its name in the sorted list of the names of the expression; the compiled
  object has the sorted names as its input names.
\<close>

theorem empty_input_order:
  "numexpr H src (Some []) precompiled h = numexpr H src None precompiled h \<and>
   (expression_of H src h = Inr (PyNode x, h') \<and> well_formed (wrapped x h') \<and> host_ok H \<longrightarrow>
      (\<exists>prog n_temps.
         numexpr H src (Some []) True h = Inr (Precompiled prog) \<and>
         list_all2
           (instr_ok (sort (variable_names (wrapped x h')))
              (value_keys H (const_keys (wrapped x h'))))
           (filter is_OpNode (walk (wrapped x h'))) prog \<and>
         numexpr H src (Some []) False h =
           (case foldE (join_string H) prog [] of
              Inl e \<Rightarrow> Inl e
            | Inr s \<Rightarrow>
                Inr (Compiled
                  \<lparr>nex_n_inputs = length (variable_names (wrapped x h')), nex_n_temps = n_temps,
                   nex_program = s,
                   nex_constants = map to_float (value_keys H (const_keys (wrapped x h'))),
                   nex_input_names = sort (variable_names (wrapped x h'))\<rparr>))) \<and>
      (\<forall>name. numexpr H src (Some []) precompiled h \<noteq> Inl (InputNotFound name) \<and>
         numexpr H src (Some []) precompiled h \<noteq> Inl (InputNotSpecified name)))"
proof -
  have node: "numexpr_node H y (Some []) precompiled = numexpr_node H y None precompiled" for y
    by (simp add: numexpr_node_def check_input_order_def)
  have first: "numexpr H src (Some []) precompiled h = numexpr H src None precompiled h"
    unfolding numexpr_def node by simp
  have second: "(\<exists>prog n_temps.
         numexpr H src (Some []) True h = Inr (Precompiled prog) \<and>
         list_all2
           (instr_ok (sort (variable_names (wrapped x h')))
              (value_keys H (const_keys (wrapped x h'))))
           (filter is_OpNode (walk (wrapped x h'))) prog \<and>
         numexpr H src (Some []) False h =
           (case foldE (join_string H) prog [] of
              Inl e \<Rightarrow> Inl e
            | Inr s \<Rightarrow>
                Inr (Compiled
                  \<lparr>nex_n_inputs = length (variable_names (wrapped x h')), nex_n_temps = n_temps,
                   nex_program = s,
                   nex_constants = map to_float (value_keys H (const_keys (wrapped x h'))),
                   nex_input_names = sort (variable_names (wrapped x h'))\<rparr>))) \<and>
      (\<forall>name. numexpr H src (Some []) precompiled h \<noteq> Inl (InputNotFound name) \<and>
         numexpr H src (Some []) precompiled h \<noteq> Inl (InputNotSpecified name))"
    if a: "expression_of H src h = Inr (PyNode x, h') \<and> well_formed (wrapped x h') \<and> host_ok H"
  proof -
  let ?ex = "wrapped x h'"
  have chk: "check_input_order H (fst (fold canonicalize_variable (walk ?ex) ([], Map.empty)))
      (Some []) = Inr (sort (variable_names ?ex))"
    by (simp add: check_order_expression)
  from a have src: "expression_of H src h = Inr (PyNode x, h')"
    and wf: "well_formed ?ex" and H: "host_ok H" by simp_all
  from compiles_with_order [OF src wf H chk] obtain prog n_temps where
    t: "numexpr H src (Some []) True h = Inr (Precompiled prog)"
    and f: "numexpr H src (Some []) False h =
        (case foldE (join_string H) prog [] of
           Inl e \<Rightarrow> Inl e
         | Inr s \<Rightarrow>
             Inr (Compiled
               \<lparr>nex_n_inputs = length (sort (variable_names ?ex)), nex_n_temps = n_temps,
                nex_program = s,
                nex_constants = map to_float (value_keys H (const_keys ?ex)),
                nex_input_names = sort (variable_names ?ex)\<rparr>))"
    and l: "list_all2 (instr_ok (sort (variable_names ?ex)) (value_keys H (const_keys ?ex)))
        (filter is_OpNode (walk ?ex)) prog"
    by blast
  note f' = f [unfolded length_sort]
  have no: "numexpr H src (Some []) precompiled h \<noteq> Inl (InputNotFound name) \<and>
      numexpr H src (Some []) precompiled h \<noteq> Inl (InputNotSpecified name)" for name
  proof (cases precompiled)
    case True
    with t show ?thesis by simp
  next
    case False
    show ?thesis
    proof (cases "foldE (join_string H) prog []")
      case (Inl e)
      from join_string_errors [OF Inl] Inl f' False show ?thesis by auto
    next
      case (Inr s)
      with f' False show ?thesis by simp
    qed
  qed
  from t l f' no show ?thesis by blast
  qed
  from first second show ?thesis by blast
qed

lemma example_b_plus_a:
  "expression_of example_host (Text ''b+a'') 0 =
     Inr (PyNode (OpNode 2 ''add'' [VariableNode 0 ''b'', VariableNode 1 ''a'']), 3)"
  by (simp add: compile_defs example_host_def example_parse_def eval_nat_numeral)

lemma example_b_plus_a_program:
  "numexpr example_host (Text ''b+a'') (Some []) True 0 =
     Inr (Precompiled [(''add'',
       Register_new (Some 0) None False False None,
       Register_new (Some 2) (Some ''b'') False False None,
       Some (Register_new (Some 1) (Some ''a'') False False None))])"
  by (simp add: compile_defs example_host_def example_parse_def eval_nat_numeral)

theorem empty_input_order_witness:
  "expression_of example_host (Text ''b+a'') 0 =
     Inr (PyNode (OpNode 2 ''add'' [VariableNode 0 ''b'', VariableNode 1 ''a'']), 3) \<and>
   well_formed (wrapped (OpNode 2 ''add'' [VariableNode 0 ''b'', VariableNode 1 ''a'']) 3) \<and>
   host_ok example_host \<and>
   variable_names (wrapped (OpNode 2 ''add'' [VariableNode 0 ''b'', VariableNode 1 ''a'']) 3) =
     [''b'', ''a''] \<and>
   numexpr example_host (Text ''b+a'') None True 0 =
     Inr (Precompiled [(''add'',
       Register_new (Some 0) None False False None,
       Register_new (Some 2) (Some ''b'') False False None,
       Some (Register_new (Some 1) (Some ''a'') False False None))]) \<and>
   (\<exists>prog. numexpr example_host (Text ''b+a'') (Some []) True 0 = Inr (Precompiled prog) \<and>
      list_all2 (instr_ok [''a'', ''b''] [])
        [OpNode 2 ''add'' [VariableNode 0 ''b'', VariableNode 1 ''a'']] prog)"
proof -
  let ?x = "OpNode 2 ''add'' [VariableNode 0 ''b'', VariableNode 1 ''a'']"
  have wf: "well_formed (wrapped ?x 3)"
    by (simp add: well_formed_def wrapped_def)
  have names: "variable_names (wrapped ?x 3) = [''b'', ''a'']"
    by (simp add: variable_names_def wrapped_def first_seen_def)
  have keys: "const_keys (wrapped ?x 3) = []"
    by (simp add: const_keys_def wrapped_def)
  have sorted: "sort [''b'', ''a''] = [''a'', ''b'']"
    by simp
  have ops: "filter is_OpNode (walk (wrapped ?x 3)) = [?x]"
    by (simp add: wrapped_def)
  from empty_input_order [of example_host "Text ''b+a''" True 0 ?x 3]
    example_b_plus_a wf host_ok_example
  obtain prog where
    p: "numexpr example_host (Text ''b+a'') (Some []) True 0 = Inr (Precompiled prog)"
    "list_all2 (instr_ok [''a'', ''b''] (value_keys example_host [])) [?x] prog"
    and e: "numexpr example_host (Text ''b+a'') (Some []) True 0 =
      numexpr example_host (Text ''b+a'') None True 0"
    unfolding names keys sorted ops by blast
  from p(2) have "list_all2 (instr_ok [''a'', ''b''] []) [?x] prog"
    by (simp add: host_ok_value_nil [OF host_ok_example])
  with p(1) e example_b_plus_a example_b_plus_a_program wf host_ok_example names
  show ?thesis by auto
qed




subsection \<open>The inputs and the constants of a compiled program\<close>

lemma check_order_given:
  "check_input_order H (fst (fold canonicalize_variable (walk ex) ([], Map.empty))) io = Inr order
   \<Longrightarrow> order = given_order io ex"
  unfolding check_order_expression
  by (auto simp: given_order_def split: option.splits if_splits)

lemma set_variable_names:
  "set (variable_names ex) = {s. \<exists>i. VariableNode i s \<in> set (walk ex)}"
proof -
  have "set [s. VariableNode i s \<leftarrow> xs] = {s. \<exists>i. VariableNode i s \<in> set xs}" for xs
  proof (induction xs)
    case Nil
    show ?case by simp
  next
    case (Cons a xs)
    then show ?case by (cases a) auto
  qed
  then show ?thesis by (simp add: variable_names_def)
qed

lemma set_constant_values:
  "set (constant_values ex) = {v. \<exists>i. ConstantNode i v \<in> set (walk ex)}"
proof -
  have "set [v. ConstantNode i v \<leftarrow> xs] = {v. \<exists>i. ConstantNode i v \<in> set xs}" for xs
  proof (induction xs)
    case Nil
    show ?case by simp
  next
    case (Cons a xs)
    then show ?case by (cases a) auto
  qed
  then show ?thesis by (simp add: constant_values_def)
qed

lemma const_keys_first_seen:
  "map to_float (const_keys ex) = first_seen (map to_float (constant_values ex))"
proof -
  obtain cmap nm where f: "fold canonicalize_constant (walk ex) ([], Map.empty) = (cmap, nm)"
    by (cases "fold canonicalize_constant (walk ex) ([], Map.empty)") auto
  from canonicalize_constants [OF f]
  have "map (to_float \<circ> fst) cmap = first_seen (map to_float [v. ConstantNode i v \<leftarrow> walk ex])"
    by (rule conjunct1)
  moreover have "map to_float (const_keys ex) = map (to_float \<circ> fst) cmap"
    unfolding const_keys_def f by simp
  ultimately show ?thesis by (simp only: constant_values_def)
qed

lemma pool_values:
  assumes "host_ok H"
  shows "distinct (map to_float (value_keys H (const_keys ex))) \<and>
     set (map to_float (value_keys H (const_keys ex))) = to_float ` set (constant_values ex) \<and>
     length (value_keys H (const_keys ex)) = card (to_float ` set (constant_values ex))"
proof -
  let ?pool = "map to_float (value_keys H (const_keys ex))"
  let ?first = "first_seen (map to_float (constant_values ex))"
  from host_ok_value_keys [OF assms]
  have "mset (value_keys H (const_keys ex)) = mset (const_keys ex)" .
  then have "mset ?pool = mset (map to_float (const_keys ex))"
    by (simp only: mset_map)
  then have m: "mset ?pool = mset ?first"
    by (simp only: const_keys_first_seen)
  have d: "distinct ?pool"
    using mset_eq_imp_distinct_iff [OF m] by simp
  have s: "set ?pool = to_float ` set (constant_values ex)"
    using mset_eq_setD [OF m] by simp
  from d have "card (set ?pool) = length ?pool" by (rule distinct_card)
  with s have "length (value_keys H (const_keys ex)) = card (to_float ` set (constant_values ex))"
    by simp
  with d s show ?thesis by blast
qed

lemma last_index_replicate: "last_index (replicate (Suc n) x) x = Some n"
  by (induction n) simp_all

subsection \<open>The claims on the inputs and the constants\<close>

text \<open>
  C5, as the code has it. Let a non-empty \<open>input_order\<close> be given for an expression that
  the host has built. When the order has a name that the expression does not use, the first
  such name is reported as not found in the expression, whether or not a used name is
  missing too. Otherwise, when a name of the expression is not in the order, the first such
  name that the dictionary of the names yields is reported as not specified. Otherwise the
  names of the order are those of the expression: a program is produced, the number of
  inputs is the length of the order, and every variable has the input register whose index
  is one more than the last position of its name in the order. So the list of the program
  (\<open>precompiled\<close>) is refused exactly when the names of the order are not those of the
  expression; the compiled object is the serialisation of that program, which raises
  errors of its own.
\<close>

theorem input_order_checked:
  assumes "expression_of H src h = Inr (PyNode x, h')"
    and "well_formed (wrapped x h')"
    and "host_ok H"
    and "order \<noteq> []"
  shows "(\<forall>s. find (\<lambda>s. s \<notin> set (variable_names (wrapped x h'))) order = Some s \<longrightarrow>
        numexpr H src (Some order) pre h = Inl (InputNotFound s)) \<and>
     (\<not> set order \<subseteq> set (variable_names (wrapped x h')) \<longrightarrow>
        (\<exists>s. s \<in> set order \<and> s \<notin> set (variable_names (wrapped x h')) \<and>
           numexpr H src (Some order) pre h = Inl (InputNotFound s))) \<and>
     (\<forall>s. set order \<subseteq> set (variable_names (wrapped x h')) \<and>
          find (\<lambda>s. s \<notin> set order) (name_keys H (variable_names (wrapped x h'))) = Some s \<longrightarrow>
        numexpr H src (Some order) pre h = Inl (InputNotSpecified s)) \<and>
     (set order \<subset> set (variable_names (wrapped x h')) \<longrightarrow>
        (\<exists>s. s \<notin> set order \<and> s \<in> set (variable_names (wrapped x h')) \<and>
           numexpr H src (Some order) pre h = Inl (InputNotSpecified s))) \<and>
     (set order = set (variable_names (wrapped x h')) \<longrightarrow>
        (\<exists>prog n_temps.
           numexpr H src (Some order) True h = Inr (Precompiled prog) \<and>
           list_all2 (instr_ok order (value_keys H (const_keys (wrapped x h'))))
             (filter is_OpNode (walk (wrapped x h'))) prog \<and>
           numexpr H src (Some order) False h =
             (case foldE (join_string H) prog [] of
                Inl e \<Rightarrow> Inl e
              | Inr s \<Rightarrow>
                  Inr (Compiled
                    \<lparr>nex_n_inputs = length order, nex_n_temps = n_temps, nex_program = s,
                     nex_constants = map to_float (value_keys H (const_keys (wrapped x h'))),
                     nex_input_names = order\<rparr>)))) \<and>
     ((\<exists>e. numexpr H src (Some order) True h = Inl e) \<longleftrightarrow>
        set order \<noteq> set (variable_names (wrapped x h')))"
proof -
  let ?ex = "wrapped x h'"
  let ?names = "variable_names ?ex"
  let ?chk = "check_input_order H (fst (fold canonicalize_variable (walk ?ex) ([], Map.empty)))
    (Some order)"
  note node = numexpr_expression [OF assms(1)]
  have chk: "?chk =
      (case find (\<lambda>s. s \<notin> set ?names) order of
         Some s \<Rightarrow> Inl (InputNotFound s)
       | None \<Rightarrow>
           (case find (\<lambda>s. s \<notin> set order) (name_keys H ?names) of
              Some s \<Rightarrow> Inl (InputNotSpecified s)
            | None \<Rightarrow> Inr order))"
    using assms(4) by (simp add: check_order_expression)
  have keys: "set (name_keys H ?names) = set ?names"
    by (rule host_ok_name_keys [OF assms(3)])
  have a: "numexpr H src (Some order) pre h = Inl (InputNotFound s)"
    if "find (\<lambda>s. s \<notin> set ?names) order = Some s" for s pre
  proof -
    from that chk have "?chk = Inl (InputNotFound s)" by simp
    then show ?thesis unfolding node by (rule numexpr_node_check_error)
  qed
  have a': "\<exists>s. s \<in> set order \<and> s \<notin> set ?names \<and>
      numexpr H src (Some order) pre h = Inl (InputNotFound s)"
    if "\<not> set order \<subseteq> set ?names" for pre
  proof -
    from that have "find (\<lambda>s. s \<notin> set ?names) order \<noteq> None"
      by (auto simp: find_None_iff)
    then obtain s where s: "find (\<lambda>s. s \<notin> set ?names) order = Some s" by auto
    then have "s \<in> set order \<and> s \<notin> set ?names"
      by (auto simp: find_Some_iff)
    with a [OF s] show ?thesis by blast
  qed
  have b: "numexpr H src (Some order) pre h = Inl (InputNotSpecified s)"
    if "set order \<subseteq> set ?names" "find (\<lambda>s. s \<notin> set order) (name_keys H ?names) = Some s"
    for s pre
  proof -
    from that(1) have "find (\<lambda>s. s \<notin> set ?names) order = None"
      by (auto simp: find_None_iff)
    with that(2) chk have "?chk = Inl (InputNotSpecified s)" by simp
    then show ?thesis unfolding node by (rule numexpr_node_check_error)
  qed
  have b': "\<exists>s. s \<notin> set order \<and> s \<in> set ?names \<and>
      numexpr H src (Some order) pre h = Inl (InputNotSpecified s)"
    if "set order \<subset> set ?names" for pre
  proof -
    from that keys have "find (\<lambda>s. s \<notin> set order) (name_keys H ?names) \<noteq> None"
      by (auto simp: find_None_iff)
    then obtain s where s: "find (\<lambda>s. s \<notin> set order) (name_keys H ?names) = Some s" by auto
    then have "s \<notin> set order \<and> s \<in> set (name_keys H ?names)"
      by (auto simp: find_Some_iff)
    with keys b [OF _ s] that show ?thesis by blast
  qed
  have c: "\<exists>prog n_temps.
           numexpr H src (Some order) True h = Inr (Precompiled prog) \<and>
           list_all2 (instr_ok order (value_keys H (const_keys ?ex)))
             (filter is_OpNode (walk ?ex)) prog \<and>
           numexpr H src (Some order) False h =
             (case foldE (join_string H) prog [] of
                Inl e \<Rightarrow> Inl e
              | Inr s \<Rightarrow>
                  Inr (Compiled
                    \<lparr>nex_n_inputs = length order, nex_n_temps = n_temps, nex_program = s,
                     nex_constants = map to_float (value_keys H (const_keys ?ex)),
                     nex_input_names = order\<rparr>))"
    if "set order = set ?names"
  proof -
    from that have 1: "find (\<lambda>s. s \<notin> set ?names) order = None"
      by (auto simp: find_None_iff)
    from that keys have 2: "find (\<lambda>s. s \<notin> set order) (name_keys H ?names) = None"
      by (auto simp: find_None_iff)
    from chk 1 2 have "?chk = Inr order" by simp
    from compiles_with_order [OF assms(1) assms(2) assms(3) this] show ?thesis by blast
  qed
  have d: "(\<exists>e. numexpr H src (Some order) True h = Inl e) \<longleftrightarrow> set order \<noteq> set ?names"
  proof
    assume "\<exists>e. numexpr H src (Some order) True h = Inl e"
    with c show "set order \<noteq> set ?names" by auto
  next
    assume n: "set order \<noteq> set ?names"
    show "\<exists>e. numexpr H src (Some order) True h = Inl e"
    proof (cases "set order \<subseteq> set ?names")
      case True
      with n have "set order \<subset> set ?names" by blast
      from b' [OF this] show ?thesis by blast
    next
      case False
      from a' [OF this] show ?thesis by blast
    qed
  qed
  from a a' b b' c d show ?thesis by blast
qed

text \<open>
  The claim C5 as stated fails for the expression \<open>a\<close> and the order that names \<open>a\<close> 256
  times: the order has no unused name and omits no used one, and the compilation fails, as
  the variable has register 256, which is no byte. Without an order the expression compiles.
\<close>

theorem repeated_input_name:
  "set (replicate 256 ''a'') = set (variable_names (wrapped (VariableNode 0 ''a'') 1)) \<and>
   expression_of example_host (Text ''a'') 0 = Inr (PyNode (VariableNode 0 ''a''), 1) \<and>
   numexpr example_host (Text ''a'') (Some (replicate 256 ''a'')) False 0 = Inl ChrNotInRange \<and>
   numexpr example_host (Text ''a'') None False 0 =
     Inr (Compiled \<lparr>nex_n_inputs = 1, nex_n_temps = 0,
       nex_program = [char_of (1::nat), char_of (0::nat), char_of (1::nat), char_of (0::nat)],
       nex_constants = [], nex_input_names = [''a'']\<rparr>)"
proof -
  let ?x = "VariableNode 0 ''a''"
  let ?ex = "OpNode 1 ''copy'' [?x]"
  let ?order = "replicate 256 ''a''"
  have w: "wrapped ?x 1 = ?ex" by (simp add: wrapped_def)
  have names: "variable_names ?ex = [''a'']"
    by (simp add: variable_names_def first_seen_def)
  have keys: "const_keys ?ex = []" by (simp add: const_keys_def)
  have ops: "filter is_OpNode (walk ?ex) = [?ex]" by simp
  have s: "set ?order = set (variable_names ?ex)" unfolding names by simp
  have src: "expression_of example_host (Text ''a'') 0 = Inr (PyNode ?x, 1)"
    by (simp add: compile_defs example_host_def example_parse_def)
  have wf: "well_formed (wrapped ?x 1)" by (simp add: well_formed_def wrapped_def)
  have ne: "?order \<noteq> []" by simp
  have chk: "check_input_order example_host
      (fst (fold canonicalize_variable (walk (wrapped ?x 1)) ([], Map.empty))) (Some ?order)
      = Inr ?order"
  proof -
    have 1: "find (\<lambda>s. s \<notin> set [''a'']) ?order = None"
      by (simp add: find_None_iff)
    have 2: "find (\<lambda>s. s \<notin> set ?order) (name_keys example_host [''a'']) = None"
      by (simp add: find_None_iff example_host_def)
    show ?thesis
      unfolding check_order_expression w names using ne by (simp only: 1 2 option.case if_False)
  qed
  from compiles_with_order [OF src wf host_ok_example chk] obtain prog n_temps where
    f: "numexpr example_host (Text ''a'') (Some ?order) False 0 =
        (case foldE (join_string example_host) prog [] of
           Inl e \<Rightarrow> Inl e
         | Inr s \<Rightarrow>
             Inr (Compiled
               \<lparr>nex_n_inputs = length ?order, nex_n_temps = n_temps, nex_program = s,
                nex_constants = map to_float (value_keys example_host (const_keys (wrapped ?x 1))),
                nex_input_names = ?order\<rparr>))"
    and l: "list_all2 (instr_ok ?order (value_keys example_host (const_keys (wrapped ?x 1))))
        (filter is_OpNode (walk (wrapped ?x 1))) prog"
    and o: "is_output (fst (snd (last prog)))"
    by blast
  from l obtain t where p: "prog = [t]"
    and t: "instr_ok ?order (value_keys example_host (const_keys ?ex)) ?ex t"
    unfolding w ops by (auto simp: list_all2_Cons1)
  obtain opcode d a1 a2 where T: "t = (opcode, d, a1, a2)" by (cases t) auto
  have li: "last_index ?order ''a'' = Some 255"
    using last_index_replicate [of 255 "''a''"] by simp
  from t T li have opc: "opcode = ''copy''"
    and a1: "a1 = Register_new (Some 256) (Some ''a'') False False None"
    by simp_all
  from o p T have d: "d = Register_new (Some 0) None False False None"
    by (simp add: is_output_def)
  have "to_string example_host t = Inl ChrNotInRange"
    unfolding T opc a1 d
    by (simp add: to_string_def chr_def example_host_def example_opcodes_def Register_new_def)
  then have "foldE (join_string example_host) prog [] = Inl ChrNotInRange"
    unfolding p by (simp add: join_string_def)
  with f have fail: "numexpr example_host (Text ''a'') (Some ?order) False 0 = Inl ChrNotInRange"
    by simp
  have ok: "numexpr example_host (Text ''a'') None False 0 =
     Inr (Compiled \<lparr>nex_n_inputs = 1, nex_n_temps = 0,
       nex_program = [char_of (1::nat), char_of (0::nat), char_of (1::nat), char_of (0::nat)],
       nex_constants = [], nex_input_names = [''a'']\<rparr>)"
    by (simp add: compile_defs example_host_def example_parse_def example_opcodes_def
          host_ok_value_nil [OF host_ok_example, unfolded example_host_def, simplified])
  from s src fail ok show ?thesis unfolding w by blast
qed

lemma example_a_plus_b:
  "expression_of example_host (Text ''a+b'') 0 =
     Inr (PyNode (OpNode 2 ''add'' [VariableNode 0 ''a'', VariableNode 1 ''b'']), 3)"
  by (simp add: compile_defs example_host_def example_parse_def eval_nat_numeral)

theorem input_order_checked_witness:
  "numexpr example_host (Text ''a+b'') (Some [''a'']) False 0 = Inl (InputNotSpecified ''b'') \<and>
   numexpr example_host (Text ''a+b'') (Some [''a'', ''c'']) False 0 = Inl (InputNotFound ''c'') \<and>
   (\<exists>prog. numexpr example_host (Text ''a+b'') (Some [''b'', ''a'']) True 0 =
        Inr (Precompiled prog) \<and>
      list_all2 (instr_ok [''b'', ''a''] [])
        [OpNode 2 ''add'' [VariableNode 0 ''a'', VariableNode 1 ''b'']] prog) \<and>
   numexpr example_host (Text ''a+b'') (Some [''b'', ''a'']) True 0 =
     Inr (Precompiled [(''add'',
       Register_new (Some 0) None False False None,
       Register_new (Some 2) (Some ''a'') False False None,
       Some (Register_new (Some 1) (Some ''b'') False False None))])"
proof -
  let ?x = "OpNode 2 ''add'' [VariableNode 0 ''a'', VariableNode 1 ''b'']"
  have wf: "well_formed (wrapped ?x 3)"
    by (simp add: well_formed_def wrapped_def)
  have names: "variable_names (wrapped ?x 3) = [''a'', ''b'']"
    by (simp add: variable_names_def wrapped_def first_seen_def)
  have keys: "value_keys example_host (const_keys (wrapped ?x 3)) = []"
    by (simp add: const_keys_def wrapped_def example_host_def)
  have nk: "name_keys example_host [''a'', ''b''] = [''a'', ''b'']"
    by (simp add: example_host_def)
  have ops: "filter is_OpNode (walk (wrapped ?x 3)) = [?x]"
    by (simp add: wrapped_def)
  note t = input_order_checked [OF example_a_plus_b wf host_ok_example, unfolded names keys nk ops]
  have 1: "numexpr example_host (Text ''a+b'') (Some [''a'']) False 0 =
      Inl (InputNotSpecified ''b'')"
    using t [of "[''a'']" False] by simp
  have 2: "numexpr example_host (Text ''a+b'') (Some [''a'', ''c'']) False 0 =
      Inl (InputNotFound ''c'')"
    using t [of "[''a'', ''c'']" False] by simp
  have 3: "\<exists>prog. numexpr example_host (Text ''a+b'') (Some [''b'', ''a'']) True 0 =
        Inr (Precompiled prog) \<and>
      list_all2 (instr_ok [''b'', ''a''] []) [?x] prog"
    using t [of "[''b'', ''a'']" True] by auto
  have 4: "numexpr example_host (Text ''a+b'') (Some [''b'', ''a'']) True 0 =
     Inr (Precompiled [(''add'',
       Register_new (Some 0) None False False None,
       Register_new (Some 2) (Some ''a'') False False None,
       Some (Register_new (Some 1) (Some ''b'') False False None))])"
    by (simp add: compile_defs example_host_def example_parse_def eval_nat_numeral)
  from 1 2 3 4 show ?thesis by blast
qed

subsection \<open>The registers of the operands\<close>

lemma operands_ok:
  "instr_ok order keys a t \<Longrightarrow> (b, r) \<in> set (operands a t) \<Longrightarrow> operand_ok order keys b r"
proof -
  assume ok: "instr_ok order keys a t" and m: "(b, r) \<in> set (operands a t)"
  from ok obtain i opc args where A: "a = OpNode i opc args" by (cases a) auto
  obtain opcode d a1 a2 where T: "t = (opcode, d, a1, a2)" by (cases t) auto
  from ok A T obtain b1 rest where args: "args = b1 # rest" by (cases args) auto
  from ok A T args have o1: "operand_ok order keys b1 a1" by simp
  show ?thesis
  proof (cases rest)
    case Nil
    with m A T args have "(b, r) = (b1, a1)" by simp
    with o1 show ?thesis by simp
  next
    case (Cons b2 others)
    with ok A T args obtain r2 where r2: "a2 = Some r2" "operand_ok order keys b2 r2"
      by (cases a2) auto
    from m A T args Cons r2(1) have "(b, r) = (b1, a1) \<or> (b, r) = (b2, r2)" by auto
    with o1 r2(2) show ?thesis by auto
  qed
qed

lemma operand_registers_ok:
  "list_all2 (instr_ok order keys) ops prog \<Longrightarrow> (b, r) \<in> set (operand_registers ops prog) \<Longrightarrow>
   operand_ok order keys b r"
proof (induction rule: list_all2_induct)
  case Nil
  then show ?case by (simp add: operand_registers_def)
next
  case (Cons a ops t prog)
  from Cons.prems have "(b, r) \<in> set (operands a t) \<or> (b, r) \<in> set (operand_registers ops prog)"
    by (auto simp: operand_registers_def)
  with Cons.hyps(1) Cons.IH operands_ok show ?case by blast
qed

lemma variable_registers:
  assumes "operand_ok order keys (VariableNode i s) r"
    and "operand_ok order keys (VariableNode j s') r'"
  shows "(r = r') = (s = s')"
  using assms by (auto simp: Register_new_def split: option.splits)

lemma constant_registers_equal:
  assumes d: "distinct (map to_float keys)"
    and a: "operand_ok order keys (ConstantNode i v) r"
    and b: "operand_ok order keys (ConstantNode j v') r'"
  shows "(r = r') = (to_float v = to_float v')"
proof -
  from a obtain p where p: "reg_n r = Some p" "p < length keys" "py_eq (keys ! p) v"
    "r = Register_new (Some p) None False True (Some (keys ! p))"
    by (auto split: option.splits)
  from b obtain q where q: "reg_n r' = Some q" "q < length keys" "py_eq (keys ! q) v'"
    "r' = Register_new (Some q) None False True (Some (keys ! q))"
    by (auto split: option.splits)
  show ?thesis
  proof
    assume "r = r'"
    with p(1) q(1) have "p = q" by simp
    with p(3) q(3) show "to_float v = to_float v'" by (simp add: py_eq_def)
  next
    assume "to_float v = to_float v'"
    with p(3) q(3) have "to_float (keys ! p) = to_float (keys ! q)" by (simp add: py_eq_def)
    with p(2) q(2) have "map to_float keys ! p = map to_float keys ! q" by simp
    moreover from d p(2) q(2)
    have "(map to_float keys ! p = map to_float keys ! q) = (p = q)"
      by (intro nth_eq_iff_index_eq) simp_all
    ultimately have "p = q" by (simp only:)
    with p(4) q(4) show "r = r'" by simp
  qed
qed

lemma compiled_given:
  assumes src: "expression_of H src h = Inr (PyNode x, h')"
    and wf: "well_formed (wrapped x h')"
    and H: "host_ok H"
    and res: "numexpr H src io True h = Inr (Precompiled prog)"
  shows "list_all2 (instr_ok (given_order io (wrapped x h')) (value_keys H (const_keys (wrapped x h'))))
        (filter is_OpNode (walk (wrapped x h'))) prog \<and>
     (\<forall>nex. numexpr H src io False h = Inr (Compiled nex) \<longrightarrow>
        nex_constants nex = map to_float (value_keys H (const_keys (wrapped x h'))) \<and>
        nex_input_names nex = given_order io (wrapped x h') \<and>
        nex_n_inputs nex = length (given_order io (wrapped x h')))"
proof -
  from compiled_program [OF assms] obtain order n_temps where
    chk: "check_input_order H
        (fst (fold canonicalize_variable (walk (wrapped x h')) ([], Map.empty))) io = Inr order"
    and c: "numexpr H src io False h =
        (case foldE (join_string H) prog [] of
           Inl e \<Rightarrow> Inl e
         | Inr s \<Rightarrow>
             Inr (Compiled
               \<lparr>nex_n_inputs = length order, nex_n_temps = n_temps, nex_program = s,
                nex_constants = map to_float (value_keys H (const_keys (wrapped x h'))),
                nex_input_names = order\<rparr>))"
    and l: "list_all2 (instr_ok order (value_keys H (const_keys (wrapped x h'))))
        (filter is_OpNode (walk (wrapped x h'))) prog"
    by blast
  note g = check_order_given [OF chk]
  have "\<forall>nex. numexpr H src io False h = Inr (Compiled nex) \<longrightarrow>
        nex_constants nex = map to_float (value_keys H (const_keys (wrapped x h'))) \<and>
        nex_input_names nex = order \<and> nex_n_inputs nex = length order"
    unfolding c by (auto split: sum.splits)
  with l show ?thesis unfolding g by blast
qed

lemma compiles_default:
  assumes src: "expression_of H src h = Inr (PyNode x, h')"
    and wf: "well_formed (wrapped x h')"
    and H: "host_ok H"
  shows "\<exists>prog n_temps.
      numexpr H src None True h = Inr (Precompiled prog) \<and>
      numexpr H src None False h =
        (case foldE (join_string H) prog [] of
           Inl e \<Rightarrow> Inl e
         | Inr s \<Rightarrow>
             Inr (Compiled
               \<lparr>nex_n_inputs = length (variable_names (wrapped x h')), nex_n_temps = n_temps,
                nex_program = s,
                nex_constants = map to_float (value_keys H (const_keys (wrapped x h'))),
                nex_input_names = sort (variable_names (wrapped x h'))\<rparr>)) \<and>
      list_all2
        (instr_ok (sort (variable_names (wrapped x h'))) (value_keys H (const_keys (wrapped x h'))))
        (filter is_OpNode (walk (wrapped x h'))) prog"
proof -
  have chk: "check_input_order H
      (fst (fold canonicalize_variable (walk (wrapped x h')) ([], Map.empty))) None =
      Inr (sort (variable_names (wrapped x h')))"
    by (simp add: check_order_expression)
  from compiles_with_order [OF src wf H chk, unfolded length_sort] show ?thesis by blast
qed

subsection \<open>The claims on the constants and on value numbering\<close>

text \<open>
  C6, as the code has it. The constants are made canonical in the order in which the
  walk first sees their values: the keys of \<open>const_map\<close>, in insertion order, are the values
  of the constants, each once, in first-seen order. The registers of the constants and the
  pool follow the order in which the host iterates the dictionary \<open>const_map\<close>, a
  permutation of its keys: in every program that compilation produces, the register of a
  constant has as index a position of the iteration at which a key equal to its value
  stands, and holds that key as value; the pool of the compiled object lists the keys in the
  order of the iteration. When the host iterates the keys in insertion order, this is the
  first-seen order. For every expression that the host builds, the compilation without an
  input order produces a program.
\<close>

theorem constant_registers:
  assumes "expression_of H src h = Inr (PyNode x, h')"
    and "well_formed (wrapped x h')"
    and "host_ok H"
  shows "map to_float (const_keys (wrapped x h')) =
       first_seen (map to_float (constant_values (wrapped x h'))) \<and>
     mset (value_keys H (const_keys (wrapped x h'))) = mset (const_keys (wrapped x h')) \<and>
     (\<exists>prog. numexpr H src None True h = Inr (Precompiled prog)) \<and>
     (\<forall>prog. numexpr H src io True h = Inr (Precompiled prog) \<longrightarrow>
        list_all2
          (instr_ok (given_order io (wrapped x h')) (value_keys H (const_keys (wrapped x h'))))
          (filter is_OpNode (walk (wrapped x h'))) prog \<and>
        (\<forall>b r. (b, r) \<in> set (operand_registers (filter is_OpNode (walk (wrapped x h'))) prog) \<longrightarrow>
           (case b of
              ConstantNode i v \<Rightarrow>
                (\<exists>p<length (value_keys H (const_keys (wrapped x h'))).
                   py_eq (value_keys H (const_keys (wrapped x h')) ! p) v \<and>
                   r = Register_new (Some p) None False True
                         (Some (value_keys H (const_keys (wrapped x h')) ! p)))
            | _ \<Rightarrow> True))) \<and>
     (\<forall>nex. numexpr H src io False h = Inr (Compiled nex) \<longrightarrow>
        nex_constants nex = map to_float (value_keys H (const_keys (wrapped x h'))) \<and>
        (value_keys H (const_keys (wrapped x h')) = const_keys (wrapped x h') \<longrightarrow>
           nex_constants nex = first_seen (map to_float (constant_values (wrapped x h')))))"
proof -
  let ?ex = "wrapped x h'"
  let ?keys = "value_keys H (const_keys ?ex)"
  let ?ops = "filter is_OpNode (walk ?ex)"
  note fs = const_keys_first_seen [of ?ex]
  note ms = host_ok_value_keys [OF assms(3), of "const_keys ?ex"]
  from compiles_default [OF assms] have ex: "\<exists>prog. numexpr H src None True h = Inr (Precompiled prog)"
    by blast
  have prog: "list_all2 (instr_ok (given_order io ?ex) ?keys) ?ops prog \<and>
        (\<forall>b r. (b, r) \<in> set (operand_registers ?ops prog) \<longrightarrow>
           (case b of
              ConstantNode i v \<Rightarrow>
                (\<exists>p<length ?keys. py_eq (?keys ! p) v \<and>
                   r = Register_new (Some p) None False True (Some (?keys ! p)))
            | _ \<Rightarrow> True))"
    if res: "numexpr H src io True h = Inr (Precompiled prog)" for prog
  proof -
    from compiled_given [OF assms res]
    have l: "list_all2 (instr_ok (given_order io ?ex) ?keys) ?ops prog" by (rule conjunct1)
    have "case b of
              ConstantNode i v \<Rightarrow>
                (\<exists>p<length ?keys. py_eq (?keys ! p) v \<and>
                   r = Register_new (Some p) None False True (Some (?keys ! p)))
            | _ \<Rightarrow> True"
      if m: "(b, r) \<in> set (operand_registers ?ops prog)" for b r
    proof (cases b)
      case (ConstantNode i v)
      from operand_registers_ok [OF l m] ConstantNode show ?thesis
        by (auto split: option.splits)
    qed simp_all
    then have "\<forall>b r. (b, r) \<in> set (operand_registers ?ops prog) \<longrightarrow>
           (case b of
              ConstantNode i v \<Rightarrow>
                (\<exists>p<length ?keys. py_eq (?keys ! p) v \<and>
                   r = Register_new (Some p) None False True (Some (?keys ! p)))
            | _ \<Rightarrow> True)"
      by (intro allI impI)
    with l show ?thesis by (rule conjI)
  qed
  have pool: "nex_constants nex = map to_float ?keys \<and>
        (?keys = const_keys ?ex \<longrightarrow>
           nex_constants nex = first_seen (map to_float (constant_values ?ex)))"
    if res: "numexpr H src io False h = Inr (Compiled nex)" for nex
  proof -
    from numexpr_expression [OF assms(1)] res
    have r: "numexpr_node H ?ex io False = Inr (Compiled nex)" by simp
    from numexpr_node_order [OF r] obtain order where
      chk: "check_input_order H (fst (fold canonicalize_variable (walk ?ex) ([], Map.empty))) io
        = Inr order" by blast
    from compiles_with_order [OF assms chk] obtain prog n_temps where
      f: "numexpr H src io False h =
        (case foldE (join_string H) prog [] of
           Inl e \<Rightarrow> Inl e
         | Inr s \<Rightarrow>
             Inr (Compiled
               \<lparr>nex_n_inputs = length order, nex_n_temps = n_temps, nex_program = s,
                nex_constants = map to_float ?keys, nex_input_names = order\<rparr>))"
      by blast
    from res have "nex_constants nex = map to_float ?keys"
      unfolding f by (auto split: sum.splits)
    with fs show ?thesis by simp
  qed
  from prog have prog_all: "\<forall>prog. numexpr H src io True h = Inr (Precompiled prog) \<longrightarrow>
        list_all2 (instr_ok (given_order io ?ex) ?keys) ?ops prog \<and>
        (\<forall>b r. (b, r) \<in> set (operand_registers ?ops prog) \<longrightarrow>
           (case b of
              ConstantNode i v \<Rightarrow>
                (\<exists>p<length ?keys. py_eq (?keys ! p) v \<and>
                   r = Register_new (Some p) None False True (Some (?keys ! p)))
            | _ \<Rightarrow> True))"
    by (intro allI impI)
  from pool have pool_all: "\<forall>nex. numexpr H src io False h = Inr (Compiled nex) \<longrightarrow>
        nex_constants nex = map to_float ?keys \<and>
        (?keys = const_keys ?ex \<longrightarrow>
           nex_constants nex = first_seen (map to_float (constant_values ?ex)))"
    by (intro allI impI)
  show ?thesis by (intro conjI fs ms ex prog_all pool_all)
qed

text \<open>
  The claim C6 as stated fails for \<open>a*2+1\<close>: the walk sees the constant 2 first and then
  the constant 1, and the dictionary whose keys are 2 and 1 iterates 1 first. The constant 2
  has register 1 and the constant 1 register 0, and the pool is \<open>[1.0, 2.0]\<close>.
\<close>

theorem constants_in_dictionary_order:
  "expression_of example_host (Text ''a*2+1'') 0 =
     Inr (PyNode (OpNode 4 ''add_c''
        [OpNode 2 ''mul_c'' [VariableNode 0 ''a'', ConstantNode 1 (PyInt 2)],
         ConstantNode 3 (PyInt 1)]), 5) \<and>
   constant_values (OpNode 4 ''add_c''
        [OpNode 2 ''mul_c'' [VariableNode 0 ''a'', ConstantNode 1 (PyInt 2)],
         ConstantNode 3 (PyInt 1)]) = [PyInt 2, PyInt 1] \<and>
   numexpr example_host (Text ''a*2+1'') None True 0 =
     Inr (Precompiled
       [(''mul_c'', Register_new (Some 0) None False False None,
           Register_new (Some 1) (Some ''a'') False False None,
           Some (Register_new (Some 1) None False True (Some (PyInt 2)))),
        (''add_c'', Register_new (Some 0) None False False None,
           Register_new (Some 0) None False False None,
           Some (Register_new (Some 0) None False True (Some (PyInt 1))))]) \<and>
   numexpr example_host (Text ''a*2+1'') None False 0 =
     Inr (Compiled \<lparr>nex_n_inputs = 1, nex_n_temps = 0,
       nex_program = [char_of (9::nat), char_of (0::nat), char_of (1::nat), char_of (1::nat),
          char_of (7::nat), char_of (0::nat), char_of (0::nat), char_of (0::nat)],
       nex_constants = [1, 2], nex_input_names = [''a'']\<rparr>)"
  by (simp add: compile_defs example_host_def example_parse_def example_opcodes_def
        constant_values_def eval_nat_numeral)

lemma example_a_times_2_plus_1:
  "expression_of example_host (Text ''a*2+1'') 0 =
     Inr (PyNode (OpNode 4 ''add_c''
        [OpNode 2 ''mul_c'' [VariableNode 0 ''a'', ConstantNode 1 (PyInt 2)],
         ConstantNode 3 (PyInt 1)]), 5)"
  by (simp add: compile_defs example_host_def example_parse_def eval_nat_numeral)

lemma example_a_times_2_plus_1_object:
  "numexpr example_host (Text ''a*2+1'') None False 0 =
     Inr (Compiled \<lparr>nex_n_inputs = 1, nex_n_temps = 0,
       nex_program = [char_of (9::nat), char_of (0::nat), char_of (1::nat), char_of (1::nat),
          char_of (7::nat), char_of (0::nat), char_of (0::nat), char_of (0::nat)],
       nex_constants = [1, 2], nex_input_names = [''a'']\<rparr>)"
  by (simp add: compile_defs example_host_def example_parse_def example_opcodes_def
        eval_nat_numeral)

theorem constant_registers_witness:
  "map to_float (const_keys (OpNode 4 ''add_c''
        [OpNode 2 ''mul_c'' [VariableNode 0 ''a'', ConstantNode 1 (PyInt 2)],
         ConstantNode 3 (PyInt 1)])) = [2, 1] \<and>
   value_keys example_host [PyInt 2, PyInt 1] = [PyInt 1, PyInt 2] \<and>
   (\<exists>prog. numexpr example_host (Text ''a*2+1'') None True 0 = Inr (Precompiled prog)) \<and>
   (\<exists>nex. numexpr example_host (Text ''a*2+1'') None False 0 = Inr (Compiled nex) \<and>
      nex_constants nex = map to_float (value_keys example_host [PyInt 2, PyInt 1]))"
proof -
  let ?x = "OpNode 4 ''add_c''
        [OpNode 2 ''mul_c'' [VariableNode 0 ''a'', ConstantNode 1 (PyInt 2)],
         ConstantNode 3 (PyInt 1)]"
  have w: "wrapped ?x 5 = ?x" by (simp add: wrapped_def)
  have wf: "well_formed (wrapped ?x 5)"
    by (simp add: well_formed_def wrapped_def)
  have cv: "constant_values ?x = [PyInt 2, PyInt 1]"
    by (simp add: constant_values_def)
  have ck: "const_keys ?x = [PyInt 2, PyInt 1]"
    by (simp add: const_keys_def py_eq_def)
  have vk: "value_keys example_host [PyInt 2, PyInt 1] = [PyInt 1, PyInt 2]"
    by (simp add: example_host_def)
  note t = constant_registers [OF example_a_times_2_plus_1 wf host_ok_example, of None,
      unfolded w ck]
  note t1 = t [THEN conjunct1]
  note t3 = t [THEN conjunct2, THEN conjunct2, THEN conjunct1]
  note t5 = t [THEN conjunct2, THEN conjunct2, THEN conjunct2, THEN conjunct2, rule_format,
      OF example_a_times_2_plus_1_object, THEN conjunct1]
  from t1 have 1: "map to_float [PyInt 2, PyInt 1] = [2, 1]"
    by simp
  from t5 example_a_times_2_plus_1_object
  have 3: "\<exists>nex. numexpr example_host (Text ''a*2+1'') None False 0 = Inr (Compiled nex) \<and>
      nex_constants nex = map to_float (value_keys example_host [PyInt 2, PyInt 1])"
    by (intro exI conjI)
  show ?thesis unfolding ck by (intro conjI 1 vk t3 3)
qed

text \<open>
  C7. For every expression that the host builds, the compilation without an input order
  produces a program. The input names of the compiled object are the names of the variables
  of the expression, each once, and the number of inputs is the number of these names. The
  pool holds the values of the constants of the expression, each once, values being compared
  as the host compares numbers. In the program, two occurrences of variables have the same
  register exactly when they have the same name, and two occurrences of constants have the
  same register exactly when they have the same value; the same holds for every program that
  a compilation with an input order produces.
\<close>

theorem value_numbering:
  assumes "expression_of H src h = Inr (PyNode x, h')"
    and "well_formed (wrapped x h')"
    and "host_ok H"
  shows "(\<exists>prog n_temps.
        numexpr H src None True h = Inr (Precompiled prog) \<and>
        numexpr H src None False h =
          (case foldE (join_string H) prog [] of
             Inl e \<Rightarrow> Inl e
           | Inr s \<Rightarrow>
               Inr (Compiled
                 \<lparr>nex_n_inputs = card {s. \<exists>i. VariableNode i s \<in> set (walk (wrapped x h'))},
                  nex_n_temps = n_temps, nex_program = s,
                  nex_constants = map to_float (value_keys H (const_keys (wrapped x h'))),
                  nex_input_names = sort (variable_names (wrapped x h'))\<rparr>))) \<and>
     distinct (sort (variable_names (wrapped x h'))) \<and>
     set (sort (variable_names (wrapped x h'))) =
       {s. \<exists>i. VariableNode i s \<in> set (walk (wrapped x h'))} \<and>
     distinct (map to_float (value_keys H (const_keys (wrapped x h')))) \<and>
     set (map to_float (value_keys H (const_keys (wrapped x h')))) =
       to_float ` {v. \<exists>i. ConstantNode i v \<in> set (walk (wrapped x h'))} \<and>
     (\<forall>prog. numexpr H src io True h = Inr (Precompiled prog) \<longrightarrow>
        (\<forall>b r b' r'.
           (b, r) \<in> set (operand_registers (filter is_OpNode (walk (wrapped x h'))) prog) \<and>
           (b', r') \<in> set (operand_registers (filter is_OpNode (walk (wrapped x h'))) prog) \<longrightarrow>
           (\<forall>i s j s'. b = VariableNode i s \<and> b' = VariableNode j s' \<longrightarrow> (r = r') = (s = s')) \<and>
           (\<forall>i v j v'. b = ConstantNode i v \<and> b' = ConstantNode j v' \<longrightarrow>
              (r = r') = (to_float v = to_float v'))))"
proof -
  let ?ex = "wrapped x h'"
  let ?keys = "value_keys H (const_keys ?ex)"
  let ?ops = "filter is_OpNode (walk ?ex)"
  have dn: "distinct (sort (variable_names ?ex))"
    by (simp add: distinct_variable_names)
  have sn: "set (sort (variable_names ?ex)) = {s. \<exists>i. VariableNode i s \<in> set (walk ?ex)}"
    by (simp add: set_variable_names)
  have "card (set (variable_names ?ex)) = length (variable_names ?ex)"
    by (rule distinct_card) (rule distinct_variable_names)
  then have cn: "length (variable_names ?ex) = card {s. \<exists>i. VariableNode i s \<in> set (walk ?ex)}"
    by (simp add: set_variable_names)
  note pv = pool_values [OF assms(3), of ?ex]
  from pv have dk: "distinct (map to_float ?keys)" by (rule conjunct1)
  from pv have sk: "set (map to_float ?keys) =
      to_float ` {v. \<exists>i. ConstantNode i v \<in> set (walk ?ex)}"
    by (simp only: set_constant_values)
  from compiles_default [OF assms, unfolded cn]
  have c: "\<exists>prog n_temps.
        numexpr H src None True h = Inr (Precompiled prog) \<and>
        numexpr H src None False h =
          (case foldE (join_string H) prog [] of
             Inl e \<Rightarrow> Inl e
           | Inr s \<Rightarrow>
               Inr (Compiled
                 \<lparr>nex_n_inputs = card {s. \<exists>i. VariableNode i s \<in> set (walk ?ex)},
                  nex_n_temps = n_temps, nex_program = s,
                  nex_constants = map to_float ?keys,
                  nex_input_names = sort (variable_names ?ex)\<rparr>))"
    by blast
  have regs: "(\<forall>i s j s'. b = VariableNode i s \<and> b' = VariableNode j s' \<longrightarrow> (r = r') = (s = s')) \<and>
           (\<forall>i v j v'. b = ConstantNode i v \<and> b' = ConstantNode j v' \<longrightarrow>
              (r = r') = (to_float v = to_float v'))"
    if res: "numexpr H src io True h = Inr (Precompiled prog)"
      and m: "(b, r) \<in> set (operand_registers ?ops prog)"
      and m': "(b', r') \<in> set (operand_registers ?ops prog)"
    for prog b r b' r'
  proof -
    from compiled_given [OF assms res]
    have l: "list_all2 (instr_ok (given_order io ?ex) ?keys) ?ops prog" by (rule conjunct1)
    note o = operand_registers_ok [OF l m]
    note o' = operand_registers_ok [OF l m']
    have v: "(r = r') = (s = s')" if "b = VariableNode i s" "b' = VariableNode j s'" for i s j s'
      using o o' that by (intro variable_registers [of _ _ i s r j s']) simp_all
    have k: "(r = r') = (to_float v = to_float v')"
      if "b = ConstantNode i v" "b' = ConstantNode j v'" for i v j v'
      using o o' that by (intro constant_registers_equal [OF dk, of _ i v r j v' r']) simp_all
    from v k show ?thesis by blast
  qed
  then have regs_all: "\<forall>prog. numexpr H src io True h = Inr (Precompiled prog) \<longrightarrow>
        (\<forall>b r b' r'.
           (b, r) \<in> set (operand_registers ?ops prog) \<and>
           (b', r') \<in> set (operand_registers ?ops prog) \<longrightarrow>
           (\<forall>i s j s'. b = VariableNode i s \<and> b' = VariableNode j s' \<longrightarrow> (r = r') = (s = s')) \<and>
           (\<forall>i v j v'. b = ConstantNode i v \<and> b' = ConstantNode j v' \<longrightarrow>
              (r = r') = (to_float v = to_float v')))"
    by (intro allI impI) (elim conjE)
  show ?thesis by (intro conjI c dn sn dk sk regs_all)
qed

lemma example_a_plus_a:
  "expression_of example_host (Text ''a+a'') 0 =
     Inr (PyNode (OpNode 1 ''add'' [VariableNode 0 ''a'', VariableNode 0 ''a'']), 2)"
  by (simp add: compile_defs example_host_def example_parse_def eval_nat_numeral)

lemma example_a_plus_a_object:
  "numexpr example_host (Text ''a+a'') None False 0 =
   Inr (Compiled \<lparr>nex_n_inputs = 1, nex_n_temps = 0,
     nex_program = [char_of (3::nat), char_of (0::nat), char_of (1::nat), char_of (1::nat)],
     nex_constants = [], nex_input_names = [''a'']\<rparr>)"
  by (simp add: compile_defs example_host_def example_parse_def example_opcodes_def
        eval_nat_numeral)

lemma example_one_plus_one_times_x:
  "expression_of example_host (Text ''1+1*x'') 0 =
   Inr (PyNode (OpNode 4 ''add_c''
      [OpNode 2 ''mul_c'' [VariableNode 0 ''x'', ConstantNode 1 (PyInt 1)],
       ConstantNode 3 (PyInt 1)]), 5)"
  by (simp add: compile_defs example_host_def example_parse_def eval_nat_numeral)

lemma example_one_plus_one_times_x_object:
  "numexpr example_host (Text ''1+1*x'') None False 0 =
   Inr (Compiled \<lparr>nex_n_inputs = 1, nex_n_temps = 0,
     nex_program = [char_of (9::nat), char_of (0::nat), char_of (1::nat), char_of (0::nat),
        char_of (7::nat), char_of (0::nat), char_of (0::nat), char_of (0::nat)],
     nex_constants = [1], nex_input_names = [''x'']\<rparr>)"
  by (simp add: compile_defs example_host_def example_parse_def example_opcodes_def
        eval_nat_numeral)

theorem value_numbering_witness:
  "numexpr example_host (Text ''a+a'') None False 0 =
     Inr (Compiled \<lparr>nex_n_inputs = 1, nex_n_temps = 0,
       nex_program = [char_of (3::nat), char_of (0::nat), char_of (1::nat), char_of (1::nat)],
       nex_constants = [], nex_input_names = [''a'']\<rparr>) \<and>
   distinct (sort (variable_names (OpNode 1 ''add'' [VariableNode 0 ''a'', VariableNode 0 ''a'']))) \<and>
   numexpr example_host (Text ''1+1*x'') None False 0 =
     Inr (Compiled \<lparr>nex_n_inputs = 1, nex_n_temps = 0,
       nex_program = [char_of (9::nat), char_of (0::nat), char_of (1::nat), char_of (0::nat),
          char_of (7::nat), char_of (0::nat), char_of (0::nat), char_of (0::nat)],
       nex_constants = [1], nex_input_names = [''x'']\<rparr>) \<and>
   distinct (map to_float (value_keys example_host (const_keys (OpNode 4 ''add_c''
      [OpNode 2 ''mul_c'' [VariableNode 0 ''x'', ConstantNode 1 (PyInt 1)],
       ConstantNode 3 (PyInt 1)]))))"
proof -
  let ?x = "OpNode 1 ''add'' [VariableNode 0 ''a'', VariableNode 0 ''a'']"
  let ?y = "OpNode 4 ''add_c''
      [OpNode 2 ''mul_c'' [VariableNode 0 ''x'', ConstantNode 1 (PyInt 1)],
       ConstantNode 3 (PyInt 1)]"
  have wx: "wrapped ?x 2 = ?x" and wy: "wrapped ?y 5 = ?y" by (simp_all add: wrapped_def)
  have wfx: "well_formed (wrapped ?x 2)"
    by (simp add: well_formed_def wrapped_def)
  have wfy: "well_formed (wrapped ?y 5)"
    by (simp add: well_formed_def wrapped_def)
  note tx = value_numbering [OF example_a_plus_a wfx host_ok_example, of None, unfolded wx]
  note ty = value_numbering [OF example_one_plus_one_times_x wfy host_ok_example, of None,
      unfolded wy]
  note 1 = tx [THEN conjunct2, THEN conjunct1]
  note 2 = ty [THEN conjunct2, THEN conjunct2, THEN conjunct2, THEN conjunct1]
  show ?thesis
    by (intro conjI example_a_plus_a_object 1 example_one_plus_one_times_x_object 2)
qed

end
